theory Spec2Isabelle
  imports Main "HOL-Library.Word"
begin

unbundle bit_operations_syntax

section \<open>AutoShield: the firewall synchronisation function (AzFunc.py)\<close>

text \<open>
  A shallow embedding of \<^verbatim>\<open>Translytical/AzFunc.py\<close>: the address parser
  \<^verbatim>\<open>parse_ip_range\<close>, the range backend \<^verbatim>\<open>manage_sql_firewall\<close>, the list backend
  \<^verbatim>\<open>manage_storage_firewall\<close> with its local \<^verbatim>\<open>expand_ip_range\<close>, and the route
  \<^verbatim>\<open>HttpTriggerIPFunc\<close>.

  Python exceptions are values of \<open>py_error\<close>; a function that can raise returns
  \<open>py_error + 'a\<close> with \<open>Inl\<close> for the exception. Strings are lists of characters and
  stand for ASCII text.
\<close>

subsection \<open>Python strings\<close>

datatype py_error =
  ValueError | TypeError | KeyError | AttributeError | RequestException

definition is_space :: "char \<Rightarrow> bool" where
  \<comment> \<open>\<^verbatim>\<open>str.isspace\<close> on ASCII: TAB, LF, VT, FF, CR, FS, GS, RS, US and the blank.\<close>
  "is_space c =
     (let n = (of_char c :: nat) in (9 \<le> n \<and> n \<le> 13) \<or> (28 \<le> n \<and> n \<le> 32))"

definition is_digit :: "char \<Rightarrow> bool" where
  \<comment> \<open>\<^verbatim>\<open>c.isascii() and c.isdigit()\<close>\<close>
  "is_digit c = (let n = (of_char c :: nat) in 48 \<le> n \<and> n \<le> 57)"

definition strip :: "string \<Rightarrow> string" where
  \<comment> \<open>\<^verbatim>\<open>s.strip()\<close>\<close>
  "strip s = rev (dropWhile is_space (rev (dropWhile is_space s)))"

fun split_on :: "char \<Rightarrow> string \<Rightarrow> string list" where
  \<comment> \<open>\<^verbatim>\<open>s.split(c)\<close> for a separator of one character: every occurrence splits.\<close>
  "split_on c [] = [[]]"
| "split_on c (x # xs) =
     (if x = c then [] # split_on c xs
      else (case split_on c xs of [] \<Rightarrow> [[x]] | p # ps \<Rightarrow> (x # p) # ps))"

definition replace_char :: "char \<Rightarrow> char \<Rightarrow> string \<Rightarrow> string" where
  \<comment> \<open>\<^verbatim>\<open>s.replace(a, b)\<close> for single characters\<close>
  "replace_char a b s = map (\<lambda>c. if c = a then b else c) s"

definition lower :: "string \<Rightarrow> string" where
  \<comment> \<open>\<^verbatim>\<open>s.lower()\<close> on ASCII\<close>
  "lower s = map (\<lambda>c. let n = (of_char c :: nat) in
                         if 65 \<le> n \<and> n \<le> 90 then char_of (n + 32) else c) s"

fun join :: "string \<Rightarrow> string list \<Rightarrow> string" where
  \<comment> \<open>\<^verbatim>\<open>sep.join(parts)\<close>\<close>
  "join sep [] = []"
| "join sep [p] = p"
| "join sep (p # q # ps) = p @ sep @ join sep (q # ps)"

definition digit_val :: "char \<Rightarrow> nat" where
  "digit_val c = of_char c - 48"

definition int_of_digits :: "string \<Rightarrow> nat" where
  \<comment> \<open>\<^verbatim>\<open>int(s, 10)\<close> on a string of decimal digits\<close>
  "int_of_digits s = foldl (\<lambda>n c. 10 * n + digit_val c) 0 s"

function str_nat :: "nat \<Rightarrow> string" where
  \<comment> \<open>\<^verbatim>\<open>str(n)\<close> for a non-negative integer\<close>
  "str_nat n = (if n < 10 then [char_of (48 + n)]
                else str_nat (n div 10) @ [char_of (48 + n mod 10)])"
  by pat_completeness auto
termination
  by (relation "measure id") auto

declare str_nat.simps [simp del]

subsection \<open>The standard library's ipaddress module\<close>

text \<open>
  \<^verbatim>\<open>ipaddress\<close> is Python's standard library, not code of the repository. Its IPv4
  half is written out here after CPython's \<^verbatim>\<open>Lib/ipaddress.py\<close> (an IPv4 address is
  an integer below \<open>2 ^ 32\<close>, here a \<open>32 word\<close>); \<open>None\<close> stands for the library's
  \<^verbatim>\<open>AddressValueError\<close> or \<^verbatim>\<open>NetmaskValueError\<close>, both subclasses of
  \<^verbatim>\<open>ValueError\<close>. Its IPv6 half is a parameter, the record \<open>ipv6_lib\<close>: the
  library tries IPv6 only after IPv4 has failed.
\<close>

type_synonym ipv4 = "32 word"
type_synonym ipv6 = "128 word"

record ipv6_lib =
  IPv6Address :: "string \<Rightarrow> ipv6 option"
  str6 :: "ipv6 \<Rightarrow> string"
  IPv6Network_bounds :: "string \<Rightarrow> (string \<times> string) option"

definition parse_octet :: "string \<Rightarrow> nat option" where
  \<comment> \<open>\<^verbatim>\<open>_BaseV4._parse_octet\<close>\<close>
  "parse_octet s =
     (if s = [] then None
      else if \<not> list_all is_digit s then None
      else if length s > 3 then None
      else if s \<noteq> ''0'' \<and> hd s = CHR ''0'' then None
      else if int_of_digits s > 255 then None
      else Some (int_of_digits s))"

definition from_bytes :: "nat list \<Rightarrow> ipv4" where
  \<comment> \<open>\<^verbatim>\<open>int.from_bytes(octets, 'big')\<close>\<close>
  "from_bytes ns = foldl (\<lambda>acc n. acc * 256 + of_nat n) 0 ns"

definition ip_int_from_string :: "string \<Rightarrow> ipv4 option" where
  \<comment> \<open>\<^verbatim>\<open>_BaseV4._ip_int_from_string\<close>\<close>
  "ip_int_from_string s =
     (if s = [] then None
      else let octets = split_on (CHR ''.'') s in
        if length octets \<noteq> 4 then None
        else map_option from_bytes (those (map parse_octet octets)))"

definition IPv4Address :: "string \<Rightarrow> ipv4 option" where
  \<comment> \<open>\<^verbatim>\<open>IPv4Address(s)\<close> for a string\<close>
  "IPv4Address s = (if CHR ''/'' \<in> set s then None else ip_int_from_string s)"

definition to_bytes :: "ipv4 \<Rightarrow> nat list" where
  \<comment> \<open>\<^verbatim>\<open>n.to_bytes(4, 'big')\<close>\<close>
  "to_bytes w = [unat (drop_bit 24 w AND 255), unat (drop_bit 16 w AND 255),
                 unat (drop_bit 8 w AND 255), unat (w AND 255)]"

definition str4 :: "ipv4 \<Rightarrow> string" where
  \<comment> \<open>\<^verbatim>\<open>str(IPv4Address(n))\<close>: the dotted quad\<close>
  "str4 w = join ''.'' (map str_nat (to_bytes w))"

definition prefix_from_prefix_string :: "string \<Rightarrow> nat option" where
  \<comment> \<open>\<^verbatim>\<open>_prefix_from_prefix_string\<close>: a prefix length in decimal, at most 32\<close>
  "prefix_from_prefix_string s =
     (if s = [] \<or> \<not> list_all is_digit s then None
      else if int_of_digits s \<le> 32 then Some (int_of_digits s) else None)"

fun count_righthand_zero_bits :: "nat \<Rightarrow> ipv4 \<Rightarrow> nat" where
  \<comment> \<open>\<^verbatim>\<open>_count_righthand_zero_bits(number, bits)\<close>: the trailing zero bits, \<open>bits\<close> for 0\<close>
  "count_righthand_zero_bits 0 w = 0"
| "count_righthand_zero_bits (Suc k) w =
     (if bit w 0 then 0 else Suc (count_righthand_zero_bits k (drop_bit 1 w)))"

definition prefix_from_ip_int :: "ipv4 \<Rightarrow> nat option" where
  \<comment> \<open>\<^verbatim>\<open>_prefix_from_ip_int\<close>: the prefix length of a netmask of ones then zeroes\<close>
  "prefix_from_ip_int w =
     (let trailing_zeroes = count_righthand_zero_bits 32 w;
          prefixlen = 32 - trailing_zeroes
      in if drop_bit trailing_zeroes w = mask prefixlen then Some prefixlen else None)"

definition prefix_from_ip_string :: "string \<Rightarrow> nat option" where
  \<comment> \<open>\<^verbatim>\<open>_prefix_from_ip_string\<close>: a netmask or a hostmask written as a dotted quad\<close>
  "prefix_from_ip_string s =
     (case ip_int_from_string s of
        None \<Rightarrow> None
      | Some w \<Rightarrow>
          (case prefix_from_ip_int w of
             Some p \<Rightarrow> Some p
           | None \<Rightarrow> prefix_from_ip_int (w XOR - 1)))"

definition make_netmask :: "string \<Rightarrow> nat option" where
  \<comment> \<open>\<^verbatim>\<open>IPv4Network._make_netmask\<close>, giving the prefix length\<close>
  "make_netmask s =
     (case prefix_from_prefix_string s of
        Some p \<Rightarrow> Some p
      | None \<Rightarrow> prefix_from_ip_string s)"

definition ip_int_from_prefix :: "nat \<Rightarrow> ipv4" where
  \<comment> \<open>\<^verbatim>\<open>_ip_int_from_prefix\<close>: \<^verbatim>\<open>ALL_ONES ^ (ALL_ONES >> prefixlen)\<close>\<close>
  "ip_int_from_prefix p = (- 1) XOR drop_bit p (- 1)"

definition IPv4Network :: "string \<Rightarrow> (ipv4 \<times> nat) option" where
  \<comment> \<open>\<^verbatim>\<open>IPv4Network(s, strict=False)\<close>: the network address (host bits cleared) and
      the prefix length\<close>
  "IPv4Network s =
     (case split_on (CHR ''/'') s of
        [a] \<Rightarrow> map_option (\<lambda>w. (w, 32)) (IPv4Address a)
      | [a, m] \<Rightarrow>
          (case IPv4Address a of
             None \<Rightarrow> None
           | Some w \<Rightarrow>
               (case make_netmask m of
                  None \<Rightarrow> None
                | Some p \<Rightarrow> Some (w AND ip_int_from_prefix p, p)))
      | _ \<Rightarrow> None)"

definition network_address :: "ipv4 \<times> nat \<Rightarrow> ipv4" where
  "network_address n = fst n"

definition broadcast_address :: "ipv4 \<times> nat \<Rightarrow> ipv4" where
  \<comment> \<open>\<^verbatim>\<open>network_address | hostmask\<close>, the hostmask being \<^verbatim>\<open>netmask ^ ALL_ONES\<close>\<close>
  "broadcast_address n = fst n OR (ip_int_from_prefix (snd n) XOR - 1)"

definition ip_network_bounds :: "ipv6_lib \<Rightarrow> string \<Rightarrow> (string \<times> string) option" where
  \<comment> \<open>\<^verbatim>\<open>net = ipaddress.ip_network(s, strict=False)\<close>, then
      \<^verbatim>\<open>(str(net.network_address), str(net.broadcast_address))\<close>; \<open>None\<close> is ValueError\<close>
  "ip_network_bounds lib s =
     (case IPv4Network s of
        Some n \<Rightarrow> Some (str4 (network_address n), str4 (broadcast_address n))
      | None \<Rightarrow> IPv6Network_bounds lib s)"

datatype ip_address = V4 ipv4 | V6 ipv6

definition ip_address :: "ipv6_lib \<Rightarrow> string \<Rightarrow> ip_address option" where
  \<comment> \<open>\<^verbatim>\<open>ipaddress.ip_address(s)\<close>; \<open>None\<close> is ValueError\<close>
  "ip_address lib s =
     (case IPv4Address s of
        Some w \<Rightarrow> Some (V4 w)
      | None \<Rightarrow> map_option V6 (IPv6Address lib s))"

subsection \<open>parse_ip_range\<close>

definition parse_ip_range :: "ipv6_lib \<Rightarrow> string \<Rightarrow> py_error + string \<times> string" where
  "parse_ip_range lib ip_str0 =
     (let ip_str = strip ip_str0 in
      if CHR ''/'' \<in> set ip_str then
        (case ip_network_bounds lib ip_str of
           None \<Rightarrow> Inl ValueError
         | Some (s, e) \<Rightarrow> Inr (s, e))
      else if CHR ''-'' \<in> set ip_str then
        (case split_on (CHR ''-'') ip_str of
           [start, end] \<Rightarrow> Inr (strip start, strip end)
         | _ \<Rightarrow> Inl ValueError)
      else Inr (ip_str, ip_str))"

subsection \<open>JSON values and Python's operations on them\<close>

text \<open>
  What \<^verbatim>\<open>response.json()\<close> returns: \<^verbatim>\<open>None\<close>, a bool, a number, a string, a list
  or a dict. The code never looks into a number, which is kept as its literal. A dict is
  an association list in insertion order.
\<close>

datatype json =
  JNull | JBool bool | JNum string | JStr string | JArr "json list" | JObj "(string \<times> json) list"

definition bindE :: "py_error + 'a \<Rightarrow> ('a \<Rightarrow> py_error + 'b) \<Rightarrow> py_error + 'b" where
  \<comment> \<open>sequencing: an exception ends the computation\<close>
  "bindE m f = (case m of Inl e \<Rightarrow> Inl e | Inr x \<Rightarrow> f x)"

fun mapE :: "('a \<Rightarrow> py_error + 'b) \<Rightarrow> 'a list \<Rightarrow> py_error + 'b list" where
  \<comment> \<open>\<^verbatim>\<open>[f(x) for x in xs]\<close>, stopping at the first exception\<close>
  "mapE f [] = Inr []"
| "mapE f (x # xs) = bindE (f x) (\<lambda>y. bindE (mapE f xs) (\<lambda>ys. Inr (y # ys)))"

fun filterE :: "('a \<Rightarrow> py_error + bool) \<Rightarrow> 'a list \<Rightarrow> py_error + 'a list" where
  \<comment> \<open>\<^verbatim>\<open>[x for x in xs if p(x)]\<close>, stopping at the first exception\<close>
  "filterE p [] = Inr []"
| "filterE p (x # xs) =
     bindE (p x) (\<lambda>b. bindE (filterE p xs) (\<lambda>ys. Inr (if b then x # ys else ys)))"

definition py_get :: "json \<Rightarrow> string \<Rightarrow> json \<Rightarrow> py_error + json" where
  \<comment> \<open>\<^verbatim>\<open>d.get(k, default)\<close>: only a dict has \<^verbatim>\<open>get\<close>\<close>
  "py_get d k dflt =
     (case d of
        JObj kvs \<Rightarrow> Inr (case map_of kvs k of Some v \<Rightarrow> v | None \<Rightarrow> dflt)
      | _ \<Rightarrow> Inl AttributeError)"

definition py_getitem :: "json \<Rightarrow> string \<Rightarrow> py_error + json" where
  \<comment> \<open>\<^verbatim>\<open>d[k]\<close> for a string key\<close>
  "py_getitem d k =
     (case d of
        JObj kvs \<Rightarrow> (case map_of kvs k of Some v \<Rightarrow> Inr v | None \<Rightarrow> Inl KeyError)
      | _ \<Rightarrow> Inl TypeError)"

definition py_iter :: "json \<Rightarrow> py_error + json list" where
  \<comment> \<open>\<^verbatim>\<open>for x in v\<close>: a list gives its items, a dict its keys, a string its characters\<close>
  "py_iter v =
     (case v of
        JArr xs \<Rightarrow> Inr xs
      | JObj kvs \<Rightarrow> Inr (map (\<lambda>kv. JStr (fst kv)) kvs)
      | JStr s \<Rightarrow> Inr (map (\<lambda>c. JStr [c]) s)
      | _ \<Rightarrow> Inl TypeError)"

definition py_append :: "json \<Rightarrow> json \<Rightarrow> py_error + json" where
  \<comment> \<open>\<^verbatim>\<open>v.append(x)\<close>: only a list has \<^verbatim>\<open>append\<close>\<close>
  "py_append v x = (case v of JArr xs \<Rightarrow> Inr (JArr (xs @ [x])) | _ \<Rightarrow> Inl AttributeError)"

definition py_str_strip :: "json \<Rightarrow> py_error + string" where
  \<comment> \<open>\<^verbatim>\<open>v.strip()\<close>: only a string has \<^verbatim>\<open>strip\<close>\<close>
  "py_str_strip v = (case v of JStr s \<Rightarrow> Inr (strip s) | _ \<Rightarrow> Inl AttributeError)"

fun dict_set :: "string \<Rightarrow> json \<Rightarrow> (string \<times> json) list \<Rightarrow> (string \<times> json) list" where
  \<comment> \<open>\<^verbatim>\<open>d[k] = v\<close>: a key already present keeps its place, a new key goes last\<close>
  "dict_set k v [] = [(k, v)]"
| "dict_set k v (kv # kvs) = (if fst kv = k then (k, v) # kvs else kv # dict_set k v kvs)"

subsection \<open>Outbound calls\<close>

text \<open>
  The remote side is a parameter: a world \<open>'w\<close> and an environment that answers each
  call and moves the world on. Every call the code issues is appended to a log, so that
  what was sent, and in which order, can be stated.
\<close>

datatype http_method = GET | PUT | DELETE | PATCH

record http_request =
  req_method :: http_method
  req_url :: string
  req_headers :: "(string \<times> string) list"
  req_json :: "json option"

record http_response =
  status_code :: int
  resp_text :: string
  resp_json :: "json option"

datatype call = Token | Request http_request

record 'w env =
  credential :: "'w \<Rightarrow> (py_error + string) \<times> 'w"
  send :: "http_request \<Rightarrow> 'w \<Rightarrow> (py_error + http_response) \<times> 'w"

type_synonym 'w st = "call list \<times> 'w"
type_synonym ('w, 'a) io = "'w st \<Rightarrow> (py_error + 'a) \<times> 'w st"

definition ret :: "'a \<Rightarrow> ('w, 'a) io" where
  "ret x = (\<lambda>s. (Inr x, s))"

definition lift :: "py_error + 'a \<Rightarrow> ('w, 'a) io" where
  "lift r = (\<lambda>s. (r, s))"

definition bindIO :: "('w, 'a) io \<Rightarrow> ('a \<Rightarrow> ('w, 'b) io) \<Rightarrow> ('w, 'b) io" where
  "bindIO m f = (\<lambda>s. case m s of (Inl e, s') \<Rightarrow> (Inl e, s') | (Inr x, s') \<Rightarrow> f x s')"

definition requests :: "'w env \<Rightarrow> http_request \<Rightarrow> ('w, http_response) io" where
  \<comment> \<open>\<^verbatim>\<open>requests.get / put / delete / patch\<close>\<close>
  "requests env r = (\<lambda>(lg, w). case send env r w of (res, w') \<Rightarrow> (res, (lg @ [Request r], w')))"

definition get_access_token :: "'w env \<Rightarrow> ('w, string) io" where
  "get_access_token env = (\<lambda>(lg, w). case credential env w of (res, w') \<Rightarrow> (res, (lg @ [Token], w')))"

definition response_json :: "http_response \<Rightarrow> py_error + json" where
  \<comment> \<open>\<^verbatim>\<open>resp.json()\<close>: raises a ValueError when the body is not JSON\<close>
  "response_json resp = (case resp_json resp of None \<Rightarrow> Inl ValueError | Some j \<Rightarrow> Inr j)"

definition SUBSCRIPTION_ID :: string where
  "SUBSCRIPTION_ID = '' ''"

definition API_SQL_VERSION :: string where
  "API_SQL_VERSION = ''2023-08-01''"

definition API_STORAGE_VERSION :: string where
  "API_STORAGE_VERSION = ''2023-01-01''"

definition auth_headers :: "string \<Rightarrow> (string \<times> string) list" where
  "auth_headers token =
     [(''Authorization'', ''Bearer '' @ token), (''Content-Type'', ''application/json'')]"

datatype result =
  RuleResult string int string
  | StatusResult int string
  | ErrorResult string

subsection \<open>manage_sql_firewall\<close>

definition sql_base :: "string \<Rightarrow> string \<Rightarrow> string \<Rightarrow> string" where
  "sql_base subscription_id rg server =
     ''https://management.azure.com/subscriptions/'' @ subscription_id @ ''/resourceGroups/'' @ rg
       @ ''/providers/Microsoft.Sql/servers/'' @ server @ ''/firewallRules''"

definition rule_name :: "string \<Rightarrow> string \<Rightarrow> string" where
  \<comment> \<open>\<^verbatim>\<open>f"rule_{start_ip.replace('.', '_')}_{end_ip.replace('.', '_')}"\<close>\<close>
  "rule_name start_ip end_ip =
     ''rule_'' @ replace_char (CHR ''.'') (CHR ''_'') start_ip @ ''_''
       @ replace_char (CHR ''.'') (CHR ''_'') end_ip"

definition rule_url :: "string \<Rightarrow> string \<Rightarrow> string" where
  "rule_url base name = base @ ''/'' @ name @ ''?api-version='' @ API_SQL_VERSION"

definition put_request :: "string \<Rightarrow> (string \<times> string) list \<Rightarrow> string \<Rightarrow> string \<Rightarrow> http_request" where
  "put_request base headers start_ip end_ip =
     \<lparr>req_method = PUT, req_url = rule_url base (rule_name start_ip end_ip), req_headers = headers,
      req_json = Some (JObj [(''properties'',
        JObj [(''startIpAddress'', JStr start_ip), (''endIpAddress'', JStr end_ip)])])\<rparr>"

definition rule_matches :: "string \<Rightarrow> string \<Rightarrow> json \<Rightarrow> py_error + bool" where
  \<comment> \<open>the filter of \<^verbatim>\<open>matching_rules\<close>; \<^verbatim>\<open>and\<close> evaluates its right side only when the
      left side holds\<close>
  "rule_matches start_ip end_ip r =
     bindE (py_getitem r ''properties'') (\<lambda>p.
     bindE (py_getitem p ''startIpAddress'') (\<lambda>s.
     bindE (py_str_strip s) (\<lambda>s'.
       if s' = start_ip then
         bindE (py_getitem r ''properties'') (\<lambda>p2.
         bindE (py_getitem p2 ''endIpAddress'') (\<lambda>e.
         bindE (py_str_strip e) (\<lambda>e'. Inr (e' = end_ip))))
       else Inr False)))"

definition matching_rules :: "json \<Rightarrow> string \<Rightarrow> string \<Rightarrow> py_error + json list" where
  "matching_rules existing_rules start_ip end_ip =
     bindE (py_iter existing_rules) (filterE (rule_matches start_ip end_ip))"

definition delete_name :: "json \<Rightarrow> py_error + string" where
  \<comment> \<open>\<^verbatim>\<open>rule["name"].split("/")[-1]\<close>\<close>
  "delete_name rule =
     bindE (py_getitem rule ''name'') (\<lambda>n.
       case n of JStr s \<Rightarrow> Inr (last (split_on (CHR ''/'') s)) | _ \<Rightarrow> Inl AttributeError)"

fun delete_rules ::
  "'w env \<Rightarrow> string \<Rightarrow> (string \<times> string) list \<Rightarrow> string \<Rightarrow> json list \<Rightarrow> ('w, result list) io" where
  \<comment> \<open>\<^verbatim>\<open>for rule in matching_rules\<close>: one DELETE and one result for each\<close>
  "delete_rules env base headers ip [] = ret []"
| "delete_rules env base headers ip (rule # rules) =
     bindIO (lift (delete_name rule)) (\<lambda>name.
     bindIO (requests env \<lparr>req_method = DELETE, req_url = rule_url base name,
                           req_headers = headers, req_json = None\<rparr>) (\<lambda>resp.
     bindIO (delete_rules env base headers ip rules) (\<lambda>rs.
       ret (RuleResult ip (status_code resp) (resp_text resp) # rs))))"

definition sql_item ::
  "ipv6_lib \<Rightarrow> 'w env \<Rightarrow> string \<Rightarrow> (string \<times> string) list \<Rightarrow> string \<Rightarrow> json \<Rightarrow> string
     \<Rightarrow> ('w, result list) io" where
  \<comment> \<open>one turn of \<^verbatim>\<open>for ip in ip_rules\<close>: the results it appends\<close>
  "sql_item lib env base headers action existing_rules ip =
     bindIO (lift (parse_ip_range lib ip)) (\<lambda>(start_ip0, end_ip0).
       let start_ip = strip start_ip0; end_ip = strip end_ip0 in
       if action = ''add'' then
         bindIO (requests env (put_request base headers start_ip end_ip)) (\<lambda>resp.
           ret [RuleResult ip (status_code resp) (resp_text resp)])
       else if action = ''remove'' then
         bindIO (lift (matching_rules existing_rules start_ip end_ip)) (\<lambda>matching.
           if matching = [] then ret [RuleResult ip 404 ''No matching rule found'']
           else delete_rules env base headers ip matching)
       else ret [ErrorResult (''Invalid action: '' @ action)])"

fun sql_loop ::
  "ipv6_lib \<Rightarrow> 'w env \<Rightarrow> string \<Rightarrow> (string \<times> string) list \<Rightarrow> string \<Rightarrow> json \<Rightarrow> string list
     \<Rightarrow> ('w, result list) io" where
  "sql_loop lib env base headers action existing_rules [] = ret []"
| "sql_loop lib env base headers action existing_rules (ip # ips) =
     bindIO (sql_item lib env base headers action existing_rules ip) (\<lambda>rs.
     bindIO (sql_loop lib env base headers action existing_rules ips) (\<lambda>rest.
       ret (rs @ rest)))"

definition sql_list_request :: "string \<Rightarrow> (string \<times> string) list \<Rightarrow> http_request" where
  "sql_list_request base headers =
     \<lparr>req_method = GET, req_url = base @ ''?api-version='' @ API_SQL_VERSION,
      req_headers = headers, req_json = None\<rparr>"

definition manage_sql_firewall ::
  "ipv6_lib \<Rightarrow> 'w env \<Rightarrow> string \<Rightarrow> string \<Rightarrow> string \<Rightarrow> string \<Rightarrow> string \<Rightarrow> string list
     \<Rightarrow> ('w, result list) io" where
  "manage_sql_firewall lib env token subscription_id rg server action ip_rules =
     (let base = sql_base subscription_id rg server; headers = auth_headers token in
      bindIO (requests env (sql_list_request base headers)) (\<lambda>existing_rules_resp.
        if status_code existing_rules_resp \<noteq> 200 then
          ret [ErrorResult (''Failed to get existing rules: '' @ resp_text existing_rules_resp)]
        else
          bindIO (lift (bindE (response_json existing_rules_resp)
                          (\<lambda>j. py_get j ''value'' (JArr [])))) (\<lambda>existing_rules.
            sql_loop lib env base headers action existing_rules ip_rules)))"

subsection \<open>manage_storage_firewall\<close>

function expand_loop :: "('a::len word \<Rightarrow> string) \<Rightarrow> 'a word \<Rightarrow> 'a word \<Rightarrow> string list
    \<Rightarrow> string list option" where
  \<comment> \<open>\<^verbatim>\<open>while start_ip <= end_ip: ips.append(str(start_ip)); start_ip += 1\<close>. Adding 1 to
      the last address of the family raises AddressValueError: \<open>None\<close>.\<close>
  "expand_loop str start_ip end_ip ips =
     (if start_ip \<le> end_ip then
        (if start_ip = - 1 then None
         else expand_loop str (start_ip + 1) end_ip (ips @ [str start_ip]))
      else Some ips)"
  by pat_completeness auto
termination
proof (relation "measure (\<lambda>(str, s, e, ips). Suc (unat e) - unat s)")
  show "wf (measure (\<lambda>(str, s, e, ips). Suc (unat e) - unat s))" by simp
next
  fix str :: "'a word \<Rightarrow> string" and start_ip end_ip :: "'a word" and ips :: "string list"
  assume le: "start_ip \<le> end_ip" and ne: "start_ip \<noteq> - 1"
  have "1 + start_ip \<noteq> 0"
  proof
    assume "1 + start_ip = 0"
    then have "1 + start_ip - 1 = 0 - 1" by simp
    then show False using ne by simp
  qed
  then have "unat (1 + start_ip) = Suc (unat start_ip)" by (rule unatSuc)
  then have "unat (start_ip + 1) = Suc (unat start_ip)" by (simp add: add.commute)
  moreover have "unat start_ip \<le> unat end_ip" using le by (simp add: word_le_nat_alt)
  ultimately show "((str, start_ip + 1, end_ip, ips @ [str start_ip]), (str, start_ip, end_ip, ips))
      \<in> measure (\<lambda>(str, s, e, ips). Suc (unat e) - unat s)"
    by simp
qed

declare expand_loop.simps [simp del]

definition expand_ip_range :: "ipv6_lib \<Rightarrow> string \<Rightarrow> py_error + string list" where
  \<comment> \<open>The unpacking of \<^verbatim>\<open>split("-")\<close> stands before the \<^verbatim>\<open>try\<close>, and the \<^verbatim>\<open>try\<close>
      catches ValueError only: comparing an IPv4 with an IPv6 address raises TypeError.\<close>
  "expand_ip_range lib ip_str0 =
     (let ip_str = strip ip_str0 in
      if CHR ''/'' \<in> set ip_str then Inr [ip_str]
      else if CHR ''-'' \<in> set ip_str then
        (case split_on (CHR ''-'') ip_str of
           [start, end] \<Rightarrow>
             (case ip_address lib (strip start) of
                None \<Rightarrow> Inr []
              | Some start_ip \<Rightarrow>
                  (case ip_address lib (strip end) of
                     None \<Rightarrow> Inr []
                   | Some end_ip \<Rightarrow>
                       (case (start_ip, end_ip) of
                          (V4 a, V4 b) \<Rightarrow>
                            (case expand_loop str4 a b [] of None \<Rightarrow> Inr [] | Some ips \<Rightarrow> Inr ips)
                        | (V6 a, V6 b) \<Rightarrow>
                            (case expand_loop (str6 lib) a b [] of None \<Rightarrow> Inr [] | Some ips \<Rightarrow> Inr ips)
                        | _ \<Rightarrow> Inl TypeError)))
         | _ \<Rightarrow> Inl ValueError)
      else Inr [ip_str])"

fun expand_all :: "ipv6_lib \<Rightarrow> string list \<Rightarrow> py_error + string list" where
  \<comment> \<open>\<^verbatim>\<open>for rule in ip_rules: expanded_ips.extend(expand_ip_range(rule))\<close>\<close>
  "expand_all lib [] = Inr []"
| "expand_all lib (rule # rules) =
     bindE (expand_ip_range lib rule) (\<lambda>ips. bindE (expand_all lib rules) (\<lambda>rest. Inr (ips @ rest)))"

definition allow_entry :: "string \<Rightarrow> json" where
  "allow_entry ip = JObj [(''action'', JStr ''Allow''), (''value'', JStr ip)]"

fun add_rules :: "json list \<Rightarrow> json \<Rightarrow> string list \<Rightarrow> py_error + json" where
  \<comment> \<open>\<^verbatim>\<open>for ip in expanded_ips: if ip not in existing: acls["ipRules"].append(...)\<close>;
      \<open>existing\<close> is the list read before the loop\<close>
  "add_rules existing ip_rules [] = Inr ip_rules"
| "add_rules existing ip_rules (ip # ips) =
     (if JStr ip \<in> set existing then add_rules existing ip_rules ips
      else bindE (py_append ip_rules (allow_entry ip)) (\<lambda>ip_rules'. add_rules existing ip_rules' ips))"

definition remove_rules :: "json \<Rightarrow> string list \<Rightarrow> py_error + json" where
  \<comment> \<open>\<^verbatim>\<open>[r for r in acls["ipRules"] if r["value"] not in expanded_ips]\<close>\<close>
  "remove_rules ip_rules expanded_ips =
     bindE (py_iter ip_rules) (\<lambda>rs.
     bindE (filterE (\<lambda>r. bindE (py_getitem r ''value'') (\<lambda>v. Inr (v \<notin> JStr ` set expanded_ips))) rs)
       (\<lambda>kept. Inr (JArr kept)))"

definition default_acls :: json where
  "default_acls = JObj [(''ipRules'', JArr []), (''defaultAction'', JStr ''Deny'')]"

definition fetched_acls :: "json \<Rightarrow> py_error + (string \<times> json) list" where
  \<comment> \<open>\<^verbatim>\<open>current.get("properties", {}).get("networkAcls", {...})\<close>, then the test
      \<^verbatim>\<open>"ipRules" not in acls\<close> and the reads \<^verbatim>\<open>acls["ipRules"]\<close>: anything but a
      dict raises TypeError in one of them\<close>
  "fetched_acls current =
     bindE (py_get current ''properties'' (JObj [])) (\<lambda>props.
     bindE (py_get props ''networkAcls'' default_acls) (\<lambda>acls.
       case acls of JObj kvs \<Rightarrow> Inr kvs | _ \<Rightarrow> Inl TypeError))"

definition acls_of :: "json \<Rightarrow> py_error + (string \<times> json) list" where
  \<comment> \<open>the fetched structure, after \<^verbatim>\<open>if "ipRules" not in acls: acls["ipRules"] = []\<close>\<close>
  "acls_of current =
     bindE (fetched_acls current) (\<lambda>acls.
       Inr (if map_of acls ''ipRules'' = None then dict_set ''ipRules'' (JArr []) acls else acls))"

definition existing_of :: "(string \<times> json) list \<Rightarrow> py_error + json list" where
  \<comment> \<open>\<^verbatim>\<open>existing = [rule["value"] for rule in acls["ipRules"]]\<close>\<close>
  "existing_of acls =
     bindE (py_getitem (JObj acls) ''ipRules'') (\<lambda>rules.
     bindE (py_iter rules) (mapE (\<lambda>rule. py_getitem rule ''value'')))"

definition patch_body :: "(string \<times> json) list \<Rightarrow> json" where
  \<comment> \<open>\<^verbatim>\<open>{"properties": {"networkAcls": acls}}\<close>\<close>
  "patch_body acls = JObj [(''properties'', JObj [(''networkAcls'', JObj acls)])]"

definition storage_update ::
  "ipv6_lib \<Rightarrow> string \<Rightarrow> string list \<Rightarrow> json \<Rightarrow> py_error + json option" where
  \<comment> \<open>from the body of the GET to the body of the PATCH; \<open>None\<close> when the action is
      neither add nor remove\<close>
  "storage_update lib action ip_rules current =
     bindE (acls_of current) (\<lambda>acls.
     bindE (existing_of acls) (\<lambda>existing.
     bindE (expand_all lib ip_rules) (\<lambda>expanded_ips.
       if action = ''add'' then
         bindE (py_getitem (JObj acls) ''ipRules'') (\<lambda>rules.
         bindE (add_rules existing rules expanded_ips) (\<lambda>rules'.
           Inr (Some (patch_body (dict_set ''ipRules'' rules' acls)))))
       else if action = ''remove'' then
         bindE (py_getitem (JObj acls) ''ipRules'') (\<lambda>rules.
         bindE (remove_rules rules expanded_ips) (\<lambda>rules'.
           Inr (Some (patch_body (dict_set ''ipRules'' rules' acls)))))
       else Inr None)))"

definition existing_values :: "json \<Rightarrow> py_error + json list" where
  \<comment> \<open>the values of the list that a fetched account carries, as the code reads them\<close>
  "existing_values current = bindE (acls_of current) existing_of"

definition storage_url :: "string \<Rightarrow> string \<Rightarrow> string \<Rightarrow> string" where
  "storage_url subscription_id rg account =
     ''https://management.azure.com/subscriptions/'' @ subscription_id @ ''/resourceGroups/'' @ rg
       @ ''/providers/Microsoft.Storage/storageAccounts/'' @ account
       @ ''?api-version='' @ API_STORAGE_VERSION"

definition storage_get :: "string \<Rightarrow> string \<Rightarrow> string \<Rightarrow> string \<Rightarrow> http_request" where
  \<comment> \<open>\<^verbatim>\<open>requests.get(url, headers=headers)\<close>\<close>
  "storage_get subscription_id token rg account =
     \<lparr>req_method = GET, req_url = storage_url subscription_id rg account,
      req_headers = auth_headers token, req_json = None\<rparr>"

definition storage_patch :: "string \<Rightarrow> string \<Rightarrow> string \<Rightarrow> string \<Rightarrow> json \<Rightarrow> http_request" where
  \<comment> \<open>\<^verbatim>\<open>requests.patch(url, headers=headers, json=patch_body)\<close>\<close>
  "storage_patch subscription_id token rg account body =
     \<lparr>req_method = PATCH, req_url = storage_url subscription_id rg account,
      req_headers = auth_headers token, req_json = Some body\<rparr>"

definition manage_storage_firewall ::
  "ipv6_lib \<Rightarrow> 'w env \<Rightarrow> string \<Rightarrow> string \<Rightarrow> string \<Rightarrow> string \<Rightarrow> string \<Rightarrow> string list
     \<Rightarrow> ('w, result list) io" where
  "manage_storage_firewall lib env subscription_id token rg account action ip_rules =
     bindIO (requests env (storage_get subscription_id token rg account)) (\<lambda>resp.
     bindIO (lift (bindE (response_json resp) (storage_update lib action ip_rules))) (\<lambda>upd.
       case upd of
         None \<Rightarrow> ret [ErrorResult (''Invalid action: '' @ action)]
       | Some body \<Rightarrow>
           bindIO (requests env (storage_patch subscription_id token rg account body)) (\<lambda>resp2.
             ret [StatusResult (status_code resp2) (resp_text resp2)])))"

subsection \<open>HttpTriggerIPFunc\<close>

text \<open>
  The request body is a record of the fields the route reads, each of the type the code
  expects; a body that lacks one of them ends in the route's \<^verbatim>\<open>except\<close>.
\<close>

record request_data =
  subscriptionId :: "string option"
  serviceType :: string
  serviceName :: string
  resourceGroup :: string
  action :: string
  ipRules :: "string list"

datatype payload = Results "result list" | ErrorMessage string | Exception py_error

record func_response =
  http_status :: int
  http_body :: payload

definition subscription_of :: "request_data \<Rightarrow> string" where
  \<comment> \<open>\<^verbatim>\<open>data.get("subscriptionId", SUBSCRIPTION_ID)\<close>\<close>
  "subscription_of data = (case subscriptionId data of Some x \<Rightarrow> x | None \<Rightarrow> SUBSCRIPTION_ID)"

definition HttpTriggerIPFunc :: "ipv6_lib \<Rightarrow> 'w env \<Rightarrow> request_data \<Rightarrow> 'w st \<Rightarrow> func_response \<times> 'w st" where
  "HttpTriggerIPFunc lib env data s =
     (let subscription_id = subscription_of data;
          service_type = lower (serviceType data);
          service_name = serviceName data;
          resource_group = resourceGroup data;
          act = lower (action data);
          ip_rules = ipRules data;
          ok = (\<lambda>result. ret \<lparr>http_status = 200, http_body = Results result\<rparr>)
      in case
           bindIO (get_access_token env) (\<lambda>token.
             if service_type = ''sql'' then
               bindIO (manage_sql_firewall lib env token subscription_id resource_group
                         service_name act ip_rules) ok
             else if service_type = ''storage'' then
               bindIO (manage_storage_firewall lib env subscription_id token resource_group
                         service_name act ip_rules) ok
             else ret \<lparr>http_status = 400,
                       http_body = ErrorMessage ''Invalid serviceType. Use 'sql' or 'storage'.''\<rparr>) s
         of
           (Inl e, s') \<Rightarrow> (\<lparr>http_status = 500, http_body = Exception e\<rparr>, s')
         | (Inr r, s') \<Rightarrow> (r, s'))"

definition no_ipv6 :: ipv6_lib where
  \<comment> \<open>an IPv6 half that accepts no string, for the examples\<close>
  "no_ipv6 = \<lparr>IPv6Address = (\<lambda>s. None), str6 = (\<lambda>w. []), IPv6Network_bounds = (\<lambda>s. None)\<rparr>"

definition env_fixed :: "http_response \<Rightarrow> unit env" where
  \<comment> \<open>a remote side for the examples: the token is \<^verbatim>\<open>t\<close>, every request gets the same answer\<close>
  "env_fixed resp = \<lparr>credential = (\<lambda>w. (Inr ''t'', w)), send = (\<lambda>r w. (Inr resp, w))\<rparr>"

definition quad_char :: "char \<Rightarrow> bool" where
  \<comment> \<open>the characters of a dotted quad\<close>
  "quad_char c = (is_digit c \<or> c = CHR ''.'')"

definition ident_char :: "char \<Rightarrow> bool" where
  \<comment> \<open>a letter, a digit or the underscore\<close>
  "ident_char c =
     (let n = (of_char c :: nat) in
        (48 \<le> n \<and> n \<le> 57) \<or> (65 \<le> n \<and> n \<le> 90) \<or> (97 \<le> n \<and> n \<le> 122) \<or> n = 95)"

definition results_for :: "ipv6_lib \<Rightarrow> json \<Rightarrow> string \<Rightarrow> nat" where
  \<comment> \<open>how many results a remove gives for one input: one for each matching rule, one
      (the 404) when none matches\<close>
  "results_for lib existing_rules ip =
     (case parse_ip_range lib ip of
        Inl e \<Rightarrow> 0
      | Inr (s, e) \<Rightarrow>
          (case matching_rules existing_rules (strip s) (strip e) of
             Inl e \<Rightarrow> 0
           | Inr ms \<Rightarrow> max 1 (length ms)))"

definition item_count :: "ipv6_lib \<Rightarrow> string \<Rightarrow> json \<Rightarrow> string \<Rightarrow> nat" where
  \<comment> \<open>how many results one input gives: add and an unknown action give one\<close>
  "item_count lib act ex ip = (if act = ''remove'' then results_for lib ex ip else 1)"

definition ok_response :: "json \<Rightarrow> http_response" where
  \<comment> \<open>for the examples: status 200, text \<^verbatim>\<open>ok\<close> and the given JSON body\<close>
  "ok_response j = \<lparr>status_code = 200, resp_text = ''ok'', resp_json = Some j\<rparr>"

definition sql_rule :: "string \<Rightarrow> string \<Rightarrow> string \<Rightarrow> json" where
  \<comment> \<open>for the examples: a firewall rule as the list call returns it\<close>
  "sql_rule name start_ip end_ip =
     JObj [(''name'', JStr name), (''properties'',
       JObj [(''startIpAddress'', JStr start_ip), (''endIpAddress'', JStr end_ip)])]"

section \<open>Properties\<close>

subsection \<open>Strings\<close>

lemma split_on_notin: "c \<notin> set s \<Longrightarrow> split_on c s = [s]"
  by (induction s) auto

lemma split_on_append: "c \<notin> set a \<Longrightarrow> split_on c (a @ c # b) = a # split_on c b"
  by (induction a) auto

lemma split_on_ne: "split_on c s \<noteq> []"
  by (induction s) (auto split: list.splits)

lemma split_on_chars: "x \<in> set s \<Longrightarrow> x \<noteq> c \<Longrightarrow> \<exists>p \<in> set (split_on c s). x \<in> set p"
  by (induction s) (fastforce split: list.splits)+

lemma split_on_hd: "hd (split_on c s) \<noteq> [] \<Longrightarrow> s \<noteq> [] \<and> hd s = hd (hd (split_on c s))"
  by (induction s) (auto split: list.splits)

lemma split_on_single: "split_on c s = [p] \<Longrightarrow> s = p"
  by (induction s arbitrary: p) (auto split: list.splits if_splits simp: split_on_ne)

lemma split_on_last: "last (split_on c s) \<noteq> [] \<Longrightarrow> s \<noteq> [] \<and> last s = last (last (split_on c s))"
proof (induction s)
  case Nil
  then show ?case by simp
next
  case (Cons a s)
  obtain p ps where sp: "split_on c s = p # ps"
    using split_on_ne [of c s] by (cases "split_on c s") auto
  show ?case
  proof (cases "ps = []")
    case True
    then have "s = p" using sp split_on_single by blast
    then show ?thesis using Cons sp True by (auto split: if_splits)
  next
    case False
    then show ?thesis using Cons sp by (auto split: if_splits)
  qed
qed

lemma dropWhile_id: "s \<noteq> [] \<Longrightarrow> \<not> P (hd s) \<Longrightarrow> dropWhile P s = s"
  by (cases s) auto

lemma strip_id: "s \<noteq> [] \<Longrightarrow> \<not> is_space (hd s) \<Longrightarrow> \<not> is_space (last s) \<Longrightarrow> strip s = s"
  by (simp add: strip_def dropWhile_id hd_rev)

lemma is_digit_not_space: "is_digit c \<Longrightarrow> \<not> is_space c"
  by (auto simp: is_digit_def is_space_def Let_def)

lemma parse_octet_Some: "parse_octet s = Some n \<Longrightarrow> s \<noteq> [] \<and> list_all is_digit s \<and> n < 256"
  by (auto simp: parse_octet_def split: if_splits)

lemma those_map_Some: "those (map f xs) = Some ys \<Longrightarrow> x \<in> set xs \<Longrightarrow> \<exists>y. f x = Some y"
  by (induction xs arbitrary: ys) (auto split: option.splits)

lemma ip_int_from_string_shape:
  assumes "ip_int_from_string s = Some w"
  shows "s \<noteq> []" and "list_all quad_char s" and "is_digit (hd s)" and "is_digit (last s)"
proof -
  let ?os = "split_on (CHR ''.'') s"
  from assms have ne: "s \<noteq> []" and len: "length ?os = 4"
    and th: "those (map parse_octet ?os) \<noteq> None"
    by (auto simp: ip_int_from_string_def Let_def split: if_splits)
  then obtain ns where ns: "those (map parse_octet ?os) = Some ns" by auto
  have oct: "o' \<noteq> [] \<and> list_all is_digit o'" if "o' \<in> set ?os" for o'
    using those_map_Some [OF ns that] parse_octet_Some by blast
  show "s \<noteq> []" by (rule ne)
  show "list_all quad_char s"
    unfolding list_all_iff
  proof
    fix x assume x: "x \<in> set s"
    show "quad_char x"
    proof (cases "x = CHR ''.''")
      case True then show ?thesis by (simp add: quad_char_def)
    next
      case False
      then obtain p where "p \<in> set ?os" "x \<in> set p" using split_on_chars [OF x] by blast
      then show ?thesis using oct by (auto simp: quad_char_def list_all_iff)
    qed
  qed
  have hdin: "hd ?os \<in> set ?os" and lastin: "last ?os \<in> set ?os"
    using split_on_ne [of "CHR ''.''" s] by auto
  have "hd (hd ?os) \<in> set (hd ?os)" "last (last ?os) \<in> set (last ?os)"
    using oct [OF hdin] oct [OF lastin] by auto
  then have "is_digit (hd (hd ?os))" "is_digit (last (last ?os))"
    using oct [OF hdin] oct [OF lastin] by (auto simp: list_all_iff)
  then show "is_digit (hd s)" "is_digit (last s)"
    using split_on_hd [of "CHR ''.''" s] split_on_last [of "CHR ''.''" s] oct [OF hdin] oct [OF lastin]
    by auto
qed

lemma make_netmask_shape:
  assumes "make_netmask m = Some p"
  shows "m \<noteq> []" and "list_all quad_char m" and "is_digit (last m)"
proof -
  from assms consider (a) "prefix_from_prefix_string m = Some p" | (b) w where "ip_int_from_string m = Some w"
    by (auto simp: make_netmask_def prefix_from_ip_string_def split: option.splits)
  then have "m \<noteq> [] \<and> list_all quad_char m \<and> is_digit (last m)"
  proof cases
    case a
    then have "m \<noteq> []" "list_all is_digit m"
      by (auto simp: prefix_from_prefix_string_def split: if_splits)
    then show ?thesis by (auto simp: list_all_iff quad_char_def)
  next
    case b
    then show ?thesis using ip_int_from_string_shape [OF b] by simp
  qed
  then show "m \<noteq> []" and "list_all quad_char m" and "is_digit (last m)" by auto
qed

lemma quad_char_not_slash: "quad_char c \<Longrightarrow> c \<noteq> CHR ''/''"
  by (auto simp: quad_char_def is_digit_def)

lemma split_on_length: "length (split_on c s) = Suc (count_list s c)"
  by (induction s) (auto split: list.splits simp: split_on_ne)

lemma split_on_two:
  "count_list s c = 1 \<Longrightarrow>
   split_on c s = [takeWhile (\<lambda>x. x \<noteq> c) s, tl (dropWhile (\<lambda>x. x \<noteq> c) s)]"
proof (induction s)
  case Nil
  then show ?case by simp
next
  case (Cons a s)
  show ?case
  proof (cases "a = c")
    case True
    with Cons.prems have "count_list s c = 0" by simp
    then have "c \<notin> set s" by (simp add: count_list_0_iff)
    then show ?thesis using True by (simp add: split_on_notin)
  next
    case False
    with Cons show ?thesis by simp
  qed
qed

subsection \<open>The parser\<close>

lemma cidr_words:
  fixes w nm :: ipv4
  shows "w AND nm \<le> (w AND nm) OR (nm XOR - 1)"
    and "((w AND nm) OR (nm XOR - 1)) AND nm = w AND nm"
    and "w AND nm \<le> w"
    and "w \<le> (w AND nm) OR (nm XOR - 1)"
proof -
  show "w AND nm \<le> (w AND nm) OR (nm XOR - 1)" by (rule le_word_or2)
  show "((w AND nm) OR (nm XOR - 1)) AND nm = w AND nm"
    by (rule bit_word_eqI) (auto simp: bit_simps)
  show "w AND nm \<le> w" by (rule word_and_le2)
  have "(w AND nm) OR (nm XOR - 1) = w OR (nm XOR - 1)"
    by (rule bit_word_eqI) (auto simp: bit_simps)
  then show "w \<le> (w AND nm) OR (nm XOR - 1)" by (simp add: le_word_or2)
qed

lemma parse_cidr:
  assumes a: "IPv4Address a = Some w" and m: "make_netmask m = Some p"
  shows "parse_ip_range lib (a @ ''/'' @ m) =
           Inr (str4 (w AND ip_int_from_prefix p),
                str4 ((w AND ip_int_from_prefix p) OR (ip_int_from_prefix p XOR - 1)))"
proof -
  let ?tok = "a @ ''/'' @ m"
  from a have a': "ip_int_from_string a = Some w" and ns: "CHR ''/'' \<notin> set a"
    by (auto simp: IPv4Address_def split: if_splits)
  note sa = ip_int_from_string_shape [OF a']
  note sm = make_netmask_shape [OF m]
  have "hd ?tok = hd a" "last ?tok = last m" using sa(1) sm(1) by auto
  then have st: "strip ?tok = ?tok"
    using sa sm by (intro strip_id) (auto simp: is_digit_not_space)
  have nm: "CHR ''/'' \<notin> set m" using sm(2) quad_char_not_slash by (auto simp: list_all_iff)
  have sp: "split_on (CHR ''/'') ?tok = [a, m]"
    using split_on_append [OF ns, of m] split_on_notin [OF nm] by simp
  have net: "IPv4Network ?tok = Some (w AND ip_int_from_prefix p, p)"
    unfolding IPv4Network_def sp using a m by simp
  show ?thesis
    unfolding parse_ip_range_def st using net
    by (simp add: Let_def ip_network_bounds_def network_address_def broadcast_address_def)
qed

lemma parse_no_slash:
  assumes "CHR ''/'' \<notin> set (strip tok)"
  shows "parse_ip_range lib tok =
       (if count_list (strip tok) (CHR ''-'') = 0 then Inr (strip tok, strip tok)
        else if count_list (strip tok) (CHR ''-'') = 1 then
          Inr (strip (takeWhile (\<lambda>c. c \<noteq> CHR ''-'') (strip tok)),
               strip (tl (dropWhile (\<lambda>c. c \<noteq> CHR ''-'') (strip tok))))
        else Inl ValueError)"
proof -
  let ?t = "strip tok"
  let ?n = "count_list ?t (CHR ''-'')"
  consider (none) "?n = 0" | (one) "?n = 1" | (more) "?n \<ge> 2" by linarith
  then show ?thesis
  proof cases
    case none
    then have "CHR ''-'' \<notin> set ?t" by (simp add: count_list_0_iff)
    then show ?thesis using assms none by (simp add: parse_ip_range_def Let_def)
  next
    case one
    then have "CHR ''-'' \<in> set ?t" using count_list_0_iff [of ?t "CHR ''-''"] by auto
    then show ?thesis using assms one
      by (simp add: parse_ip_range_def Let_def split_on_two [OF one])
  next
    case more
    then have in_t: "CHR ''-'' \<in> set ?t" using count_list_0_iff [of ?t "CHR ''-''"] by auto
    have "length (split_on (CHR ''-'') ?t) \<ge> 3" using more by (simp add: split_on_length)
    then have "(case split_on (CHR ''-'') ?t of [start, end] \<Rightarrow> Inr (strip start, strip end) | _ \<Rightarrow> Inl ValueError)
        = (Inl ValueError :: py_error + string \<times> string)"
      by (auto split: list.splits)
    then show ?thesis using assms more in_t by (simp add: parse_ip_range_def Let_def)
  qed
qed

text \<open>
  C3, as the code has it. \<open>parse_ip_range\<close> has no error value: it returns a pair of
  strings or raises ValueError, and outside the CIDR branch it checks nothing. For a
  token that holds no \<^verbatim>\<open>/\<close> once trimmed: with no \<^verbatim>\<open>-\<close> it returns the trimmed
  token twice; with exactly one \<^verbatim>\<open>-\<close> it returns the two sides, trimmed and not
  validated; with two or more \<^verbatim>\<open>-\<close> the unpacking of the split raises ValueError.
\<close>

theorem parse_ip_range_dash:
  assumes "CHR ''/'' \<notin> set (strip tok)"
  shows "parse_ip_range lib tok =
       (if count_list (strip tok) (CHR ''-'') = 0 then Inr (strip tok, strip tok)
        else if count_list (strip tok) (CHR ''-'') = 1 then
          Inr (strip (takeWhile (\<lambda>c. c \<noteq> CHR ''-'') (strip tok)),
               strip (tl (dropWhile (\<lambda>c. c \<noteq> CHR ''-'') (strip tok))))
        else Inl ValueError)"
  using assms by (rule parse_no_slash)

theorem parse_ip_range_dash_witness:
  "CHR ''/'' \<notin> set (strip '' 10.0.0.5 - 10.0.0.10'')
   \<and> parse_ip_range no_ipv6 '' 10.0.0.5 - 10.0.0.10'' = Inr (''10.0.0.5'', ''10.0.0.10'')"
proof -
  have h: "CHR ''/'' \<notin> set (strip '' 10.0.0.5 - 10.0.0.10'')" by code_simp
  have c: "count_list (strip '' 10.0.0.5 - 10.0.0.10'') (CHR ''-'') = 1" by code_simp
  have v: "strip (takeWhile (\<lambda>c. c \<noteq> CHR ''-'') (strip '' 10.0.0.5 - 10.0.0.10'')) = ''10.0.0.5''"
    "strip (tl (dropWhile (\<lambda>c. c \<noteq> CHR ''-'') (strip '' 10.0.0.5 - 10.0.0.10''))) = ''10.0.0.10''"
    by code_simp+
  show ?thesis
    using h parse_ip_range_dash [OF h, of no_ipv6] by (simp add: c v)
qed

text \<open>
  C3 as stated fails: two sides that are no dotted quads come back as an interval, not as
  an error, and a token with two \<^verbatim>\<open>-\<close> raises.
\<close>

theorem parse_ip_range_unvalidated:
  "parse_ip_range no_ipv6 ''foo-bar'' = Inr (''foo'', ''bar'')
   \<and> parse_ip_range no_ipv6 ''10.0.0.1-10.0.0.2-10.0.0.3'' = Inl ValueError
   \<and> IPv4Address ''foo'' = None \<and> IPv4Address ''bar'' = None"
  by code_simp

subsection \<open>Expanding a token for the list backend\<close>

lemma unat_succ: "(s :: 'a::len word) \<noteq> - 1 \<Longrightarrow> unat (s + 1) = Suc (unat s)"
proof -
  assume ne: "s \<noteq> - 1"
  have "1 + s \<noteq> 0"
  proof
    assume "1 + s = 0"
    then have "1 + s - 1 = 0 - 1" by simp
    then show False using ne by simp
  qed
  then have "unat (1 + s) = Suc (unat s)" by (rule unatSuc)
  then show ?thesis by (simp add: add.commute)
qed

lemma expand_loop_last: "expand_loop str a (- 1) acc = None"
proof (induction str a "- 1 :: 'a::len word" acc rule: expand_loop.induct)
  case (1 str start_ip ips)
  show ?case
  proof (cases "start_ip = - 1")
    case True
    then show ?thesis by (simp add: expand_loop.simps)
  next
    case False
    then show ?thesis using 1 by (subst expand_loop.simps) simp
  qed
qed

lemma expand_loop_below:
  "b \<noteq> - 1 \<Longrightarrow>
   expand_loop str a b acc = Some (acc @ map (\<lambda>n. str (of_nat n)) [unat a ..< Suc (unat b)])"
proof (induction str a b acc rule: expand_loop.induct)
  case (1 str start_ip end_ip ips)
  show ?case
  proof (cases "start_ip \<le> end_ip")
    case True
    then have ne: "start_ip \<noteq> - 1" using 1(2) by (metis word_order.extremum_unique)
    have le: "unat start_ip \<le> unat end_ip" using True by (simp add: word_le_nat_alt)
    have up: "[unat start_ip ..< Suc (unat end_ip)] = unat start_ip # [Suc (unat start_ip) ..< Suc (unat end_ip)]"
      using le by (simp add: upt_conv_Cons)
    have "expand_loop str start_ip end_ip ips = expand_loop str (start_ip + 1) end_ip (ips @ [str start_ip])"
      using True ne by (subst expand_loop.simps) simp
    also have "\<dots> = Some ((ips @ [str start_ip]) @ map (\<lambda>n. str (of_nat n)) [unat (start_ip + 1) ..< Suc (unat end_ip)])"
      using 1(1) [OF True ne 1(2)] .
    finally have "expand_loop str start_ip end_ip ips =
        Some (ips @ str start_ip # map (\<lambda>n. str (of_nat n)) [Suc (unat start_ip) ..< Suc (unat end_ip)])"
      by (simp add: unat_succ [OF ne] del: upt_Suc)
    moreover have "map (\<lambda>n. str (of_nat n)) [unat start_ip ..< Suc (unat end_ip)] =
        str start_ip # map (\<lambda>n. str (of_nat n)) [Suc (unat start_ip) ..< Suc (unat end_ip)]"
      by (subst up) simp
    ultimately show ?thesis by (simp del: upt_Suc)
  next
    case False
    then have "unat end_ip < unat start_ip" by (simp add: word_le_nat_alt)
    then show ?thesis using False by (subst expand_loop.simps) (simp del: upt_Suc)
  qed
qed

lemma expand_ip_range_cidr: "CHR ''/'' \<in> set (strip tok) \<Longrightarrow> expand_ip_range lib tok = Inr [strip tok]"
  by (simp add: expand_ip_range_def Let_def)

lemma expand_ip_range_single:
  "CHR ''/'' \<notin> set (strip tok) \<Longrightarrow> CHR ''-'' \<notin> set (strip tok) \<Longrightarrow> expand_ip_range lib tok = Inr [strip tok]"
  by (simp add: expand_ip_range_def Let_def)

lemma expand_ip_range_v4:
  assumes "CHR ''/'' \<notin> set (strip tok)" and "split_on (CHR ''-'') (strip tok) = [l, r]"
    and "IPv4Address (strip l) = Some a" and "IPv4Address (strip r) = Some b"
  shows "expand_ip_range lib tok =
           Inr (if b = - 1 then [] else map (\<lambda>n. str4 (of_nat n)) [unat a ..< Suc (unat b)])"
proof -
  have "CHR ''-'' \<in> set (strip tok)"
  proof (rule ccontr)
    assume "CHR ''-'' \<notin> set (strip tok)"
    then have "split_on (CHR ''-'') (strip tok) = [strip tok]" by (rule split_on_notin)
    then show False using assms(2) by simp
  qed
  then show ?thesis
    using assms expand_loop_last [of str4 a "[]"] expand_loop_below [of b str4 a "[]"]
    by (auto simp: expand_ip_range_def Let_def ip_address_def)
qed

lemma expand_ip_range_example: "expand_ip_range lib ''192.168.1.1-192.168.1.3'' = Inr [''192.168.1.1'', ''192.168.1.2'', ''192.168.1.3'']"
  by code_simp

text \<open>
  C6. A CIDR token and a single address are kept as they are (lemmas
  \<open>expand_ip_range_cidr\<close>, \<open>expand_ip_range_single\<close>), and
  \<^verbatim>\<open>192.168.1.1-192.168.1.3\<close> gives its three addresses
  (\<open>expand_ip_range_example\<close>). A range \<open>a-b\<close> gives every address from \<open>a\<close> to
  \<open>b\<close> unless \<open>b\<close> is the last IPv4 address (\<open>expand_ip_range_v4\<close>): there the
  loop's \<^verbatim>\<open>start_ip += 1\<close> steps past \<^verbatim>\<open>255.255.255.255\<close>, the library raises
  AddressValueError, the \<^verbatim>\<open>except ValueError\<close> around the loop catches it, and the
  function returns the empty list instead of the addresses of the range.
\<close>

theorem expand_ip_range_last_address:
  "expand_ip_range lib ''255.255.255.254-255.255.255.255'' = Inr []
   \<and> IPv4Address ''255.255.255.254'' = Some (- 2) \<and> IPv4Address ''255.255.255.255'' = Some (- 1)"
  by code_simp

subsection \<open>The list backend\<close>

lemma bindE_Inr: "bindE m f = Inr y \<Longrightarrow> \<exists>x. m = Inr x \<and> f x = Inr y"
  by (cases m) (auto simp: bindE_def)

lemma bindE_simps [simp]: "bindE (Inr x) f = f x" "bindE (Inl e) f = Inl e"
  by (simp_all add: bindE_def)

lemma map_of_dict_set: "map_of (dict_set k v kvs) = (map_of kvs)(k \<mapsto> v)"
  by (induction kvs) (auto simp: fun_eq_iff)

lemma keys_dict_set:
  "map fst (dict_set k v kvs) = (if k \<in> fst ` set kvs then map fst kvs else map fst kvs @ [k])"
  by (induction kvs) auto

lemma add_rules_list:
  "add_rules ex (JArr rs) ips = Inr (JArr (rs @ map allow_entry (filter (\<lambda>ip. JStr ip \<notin> set ex) ips)))"
  by (induction ips arbitrary: rs) (auto simp: py_append_def)

lemma add_rules_other:
  "(\<And>rs. rules \<noteq> JArr rs) \<Longrightarrow>
   add_rules ex rules ips =
     (if filter (\<lambda>ip. JStr ip \<notin> set ex) ips = [] then Inr rules else Inl AttributeError)"
  by (induction ips) (auto simp: py_append_def split: json.splits)

lemma add_rules_iter:
  assumes "add_rules ex rules ips = Inr rules'" and "py_iter rules = Inr items"
  shows "py_iter rules' = Inr (items @ map allow_entry (filter (\<lambda>ip. JStr ip \<notin> set ex) ips))"
proof (cases "\<exists>rs. rules = JArr rs")
  case True
  then show ?thesis using assms by (auto simp: add_rules_list py_iter_def)
next
  case False
  then have "add_rules ex rules ips =
     (if filter (\<lambda>ip. JStr ip \<notin> set ex) ips = [] then Inr rules else Inl AttributeError)"
    by (intro add_rules_other) auto
  then show ?thesis using assms by (auto split: if_splits)
qed

lemma mapE_append:
  "mapE f (xs @ ys) = bindE (mapE f xs) (\<lambda>a. bindE (mapE f ys) (\<lambda>b. Inr (a @ b)))"
  by (induction xs) (auto simp: bindE_def split: sum.splits)

lemma filterE_append:
  "filterE p (xs @ ys) = bindE (filterE p xs) (\<lambda>a. bindE (filterE p ys) (\<lambda>b. Inr (a @ b)))"
  by (induction xs) (auto simp: bindE_def split: sum.splits)

lemma value_allow_entry: "py_getitem (allow_entry ip) ''value'' = Inr (JStr ip)"
  by (simp add: py_getitem_def allow_entry_def)

lemma mapE_allow: "mapE (\<lambda>rule. py_getitem rule ''value'') (map allow_entry ips) = Inr (map JStr ips)"
  by (induction ips) (auto simp: value_allow_entry)

lemma filterE_allow:
  "set ips \<subseteq> set E \<Longrightarrow>
   filterE (\<lambda>r. bindE (py_getitem r ''value'') (\<lambda>v. Inr (v \<notin> JStr ` set E))) (map allow_entry ips) = Inr []"
  by (induction ips) (auto simp: value_allow_entry)

lemma filterE_values:
  "mapE f xs = Inr ys \<Longrightarrow>
   \<exists>kept. filterE (\<lambda>r. bindE (f r) (\<lambda>v. Inr (P v))) xs = Inr kept \<and> mapE f kept = Inr (filter P ys)"
proof (induction xs arbitrary: ys)
  case Nil
  then show ?case by simp
next
  case (Cons x xs)
  from Cons.prems obtain y ys' where y: "f x = Inr y" and ys': "mapE f xs = Inr ys'" and e: "ys = y # ys'"
    by (auto dest!: bindE_Inr)
  from Cons.IH [OF ys'] obtain kept where
    "filterE (\<lambda>r. bindE (f r) (\<lambda>v. Inr (P v))) xs = Inr kept" "mapE f kept = Inr (filter P ys')"
    by blast
  then show ?case using y e by simp
qed

lemma fetched_acls_patch_body: "fetched_acls (patch_body acls) = Inr acls"
  by (simp add: fetched_acls_def patch_body_def py_get_def)

lemma acls_of_patch_body:
  "acls_of (patch_body (dict_set ''ipRules'' rules acls)) = Inr (dict_set ''ipRules'' rules acls)"
  by (simp add: acls_of_def fetched_acls_patch_body map_of_dict_set)

lemma getitem_dict_set: "py_getitem (JObj (dict_set k v kvs)) k = Inr v"
  by (simp add: py_getitem_def map_of_dict_set)

lemma dict_set_twice: "dict_set k v (dict_set k u kvs) = dict_set k v kvs"
  by (induction kvs) auto

lemma storage_update_add:
  assumes "storage_update lib ''add'' S cur = Inr (Some b)"
  obtains acls L E rules rules' where
    "acls_of cur = Inr acls" "existing_of acls = Inr L" "expand_all lib S = Inr E"
    "py_getitem (JObj acls) ''ipRules'' = Inr rules" "add_rules L rules E = Inr rules'"
    "b = patch_body (dict_set ''ipRules'' rules' acls)"
proof -
  from assms obtain acls where a: "acls_of cur = Inr acls"
    and r1: "bindE (existing_of acls) (\<lambda>existing.
     bindE (expand_all lib S) (\<lambda>expanded_ips.
         bindE (py_getitem (JObj acls) ''ipRules'') (\<lambda>rules.
         bindE (add_rules existing rules expanded_ips) (\<lambda>rules'.
           Inr (Some (patch_body (dict_set ''ipRules'' rules' acls))))))) = Inr (Some b)"
    unfolding storage_update_def by (auto dest!: bindE_Inr)
  from r1 obtain L where l: "existing_of acls = Inr L"
    and r2: "bindE (expand_all lib S) (\<lambda>expanded_ips.
         bindE (py_getitem (JObj acls) ''ipRules'') (\<lambda>rules.
         bindE (add_rules L rules expanded_ips) (\<lambda>rules'.
           Inr (Some (patch_body (dict_set ''ipRules'' rules' acls)))))) = Inr (Some b)"
    by (auto dest!: bindE_Inr)
  from r2 obtain E where e: "expand_all lib S = Inr E"
    and r3: "bindE (py_getitem (JObj acls) ''ipRules'') (\<lambda>rules.
         bindE (add_rules L rules E) (\<lambda>rules'.
           Inr (Some (patch_body (dict_set ''ipRules'' rules' acls))))) = Inr (Some b)"
    by (auto dest!: bindE_Inr)
  from r3 obtain rules rules' where "py_getitem (JObj acls) ''ipRules'' = Inr rules"
    "add_rules L rules E = Inr rules'" "b = patch_body (dict_set ''ipRules'' rules' acls)"
    by (auto dest!: bindE_Inr)
  with a l e show ?thesis using that by blast
qed

lemma existing_of_iter:
  assumes "existing_of acls = Inr L" and "py_getitem (JObj acls) ''ipRules'' = Inr rules"
  obtains items where "py_iter rules = Inr items" "mapE (\<lambda>rule. py_getitem rule ''value'') items = Inr L"
  using assms unfolding existing_of_def by (auto dest!: bindE_Inr)

lemma add_then_remove_values:
  assumes add: "storage_update lib ''add'' S cur = Inr (Some b1)"
  shows "\<exists>E L b2. expand_all lib S = Inr E \<and> existing_values cur = Inr L
        \<and> storage_update lib ''remove'' S b1 = Inr (Some b2)
        \<and> existing_values b2 = Inr (filter (\<lambda>v. v \<notin> JStr ` set E) L)
        \<and> (set L \<inter> JStr ` set E = {} \<longrightarrow> existing_values b2 = Inr L)"
proof -
  let ?val = "\<lambda>rule. py_getitem rule ''value''"
  let ?P = "\<lambda>v. v \<notin> JStr ` set E"
  from add obtain acls L E rules rules' where
    a: "acls_of cur = Inr acls" and l: "existing_of acls = Inr L" and e: "expand_all lib S = Inr E"
    and g: "py_getitem (JObj acls) ''ipRules'' = Inr rules" and ar: "add_rules L rules E = Inr rules'"
    and b1: "b1 = patch_body (dict_set ''ipRules'' rules' acls)"
    by (rule storage_update_add)
  from l g obtain items where it: "py_iter rules = Inr items" and vals: "mapE ?val items = Inr L"
    by (rule existing_of_iter)
  let ?new = "filter (\<lambda>ip. JStr ip \<notin> set L) E"
  let ?acls1 = "dict_set ''ipRules'' rules' acls"
  have it': "py_iter rules' = Inr (items @ map allow_entry ?new)"
    using add_rules_iter [OF ar it] .
  have a1: "acls_of b1 = Inr ?acls1" unfolding b1 by (rule acls_of_patch_body)
  have ex1: "existing_of ?acls1 = Inr (L @ map JStr ?new)"
    by (simp add: existing_of_def getitem_dict_set it' mapE_append vals mapE_allow)
  from filterE_values [OF vals, of "\<lambda>v. v \<notin> JStr ` set E"] obtain kept where
    k: "filterE (\<lambda>r. bindE (?val r) (\<lambda>v. Inr (v \<notin> JStr ` set E))) items = Inr kept"
    and kv: "mapE ?val kept = Inr (filter (\<lambda>v. v \<notin> JStr ` set E) L)"
    by blast
  have "set ?new \<subseteq> set E" by auto
  then have rm: "remove_rules rules' E = Inr (JArr kept)"
    by (simp add: remove_rules_def it' filterE_append k filterE_allow)
  let ?b2 = "patch_body (dict_set ''ipRules'' (JArr kept) ?acls1)"
  have su: "storage_update lib ''remove'' S b1 = Inr (Some ?b2)"
    by (simp add: storage_update_def a1 ex1 e getitem_dict_set rm)
  have ev: "existing_values ?b2 = Inr (filter (\<lambda>v. v \<notin> JStr ` set E) L)"
    by (simp add: existing_values_def acls_of_patch_body existing_of_def getitem_dict_set
        py_iter_def kv)
  have evc: "existing_values cur = Inr L" by (simp add: existing_values_def a l)
  have "filter (\<lambda>v. v \<notin> JStr ` set E) L = L" if "set L \<inter> JStr ` set E = {}"
    using that by (intro filter_True) auto
  then show ?thesis using e evc su ev by auto
qed

text \<open>
  C5. With action add, a value already in the fetched list is not appended again
  (lemma \<open>add_rules_list\<close>: what is appended are the expanded values that are not in the
  list read before the loop). That list is not extended during the loop, so an expanded
  value that occurs twice and is new is appended twice: the PATCH body below carries
  \<^verbatim>\<open>10.0.0.1\<close> two times.
\<close>

theorem add_repeats_value:
  "storage_update lib ''add'' [''10.0.0.1'', ''10.0.0.1'']
     (patch_body [(''defaultAction'', JStr ''Deny''), (''ipRules'', JArr [])])
   = Inr (Some (patch_body [(''defaultAction'', JStr ''Deny''),
        (''ipRules'', JArr [allow_entry ''10.0.0.1'', allow_entry ''10.0.0.1''])]))"
  by code_simp

text \<open>
  C1, as the code has it. Add and then remove with the same input, the second call
  fetching what the first wrote: the values of the list are the original values without
  those of the expanded input. The list is back at its original membership when no
  expanded value of the input was in it before the add, and only then.
\<close>

theorem add_then_remove:
  assumes "storage_update lib ''add'' S cur = Inr (Some b1)"
  shows "\<exists>E L b2. expand_all lib S = Inr E \<and> existing_values cur = Inr L
        \<and> storage_update lib ''remove'' S b1 = Inr (Some b2)
        \<and> existing_values b2 = Inr (filter (\<lambda>v. v \<notin> JStr ` set E) L)
        \<and> (set L \<inter> JStr ` set E = {} \<longrightarrow> existing_values b2 = Inr L)"
  using assms by (rule add_then_remove_values)

theorem add_then_remove_witness:
  "storage_update no_ipv6 ''add'' [''10.0.0.1-10.0.0.2'']
       (patch_body [(''ipRules'', JArr [allow_entry ''10.0.0.9''])])
     = Inr (Some (patch_body [(''ipRules'',
         JArr [allow_entry ''10.0.0.9'', allow_entry ''10.0.0.1'', allow_entry ''10.0.0.2''])]))
   \<and> (\<exists>E L b2. expand_all no_ipv6 [''10.0.0.1-10.0.0.2''] = Inr E
        \<and> existing_values (patch_body [(''ipRules'', JArr [allow_entry ''10.0.0.9''])]) = Inr L
        \<and> storage_update no_ipv6 ''remove'' [''10.0.0.1-10.0.0.2'']
             (patch_body [(''ipRules'',
               JArr [allow_entry ''10.0.0.9'', allow_entry ''10.0.0.1'', allow_entry ''10.0.0.2''])])
            = Inr (Some b2)
        \<and> existing_values b2 = Inr (filter (\<lambda>v. v \<notin> JStr ` set E) L)
        \<and> (set L \<inter> JStr ` set E = {} \<longrightarrow> existing_values b2 = Inr L))"
proof -
  have h: "storage_update no_ipv6 ''add'' [''10.0.0.1-10.0.0.2'']
       (patch_body [(''ipRules'', JArr [allow_entry ''10.0.0.9''])])
     = Inr (Some (patch_body [(''ipRules'',
         JArr [allow_entry ''10.0.0.9'', allow_entry ''10.0.0.1'', allow_entry ''10.0.0.2''])]))"
    by code_simp
  show ?thesis using h add_then_remove [OF h] by blast
qed

text \<open>
  C1 as stated fails where the input names a value the list already holds: the add
  leaves the list as it is, the remove takes the value out.
\<close>

theorem add_then_remove_loses_entry:
  "storage_update no_ipv6 ''add'' [''10.0.0.1'']
       (patch_body [(''ipRules'', JArr [allow_entry ''10.0.0.1''])])
     = Inr (Some (patch_body [(''ipRules'', JArr [allow_entry ''10.0.0.1''])]))
   \<and> storage_update no_ipv6 ''remove'' [''10.0.0.1'']
       (patch_body [(''ipRules'', JArr [allow_entry ''10.0.0.1''])])
     = Inr (Some (patch_body [(''ipRules'', JArr [])]))
   \<and> existing_values (patch_body [(''ipRules'', JArr [allow_entry ''10.0.0.1''])])
     = Inr [JStr ''10.0.0.1'']
   \<and> existing_values (patch_body [(''ipRules'', JArr [])]) = Inr []"
  by code_simp

lemma manage_storage_run:
  "manage_storage_firewall lib env sub token rg account act S (lg, w) =
     (case send env (storage_get sub token rg account) w of
        (Inl e, w1) \<Rightarrow> (Inl e, (lg @ [Request (storage_get sub token rg account)], w1))
      | (Inr resp, w1) \<Rightarrow>
          (case bindE (response_json resp) (storage_update lib act S) of
             Inl e \<Rightarrow> (Inl e, (lg @ [Request (storage_get sub token rg account)], w1))
           | Inr None \<Rightarrow> (Inr [ErrorResult (''Invalid action: '' @ act)],
                          (lg @ [Request (storage_get sub token rg account)], w1))
           | Inr (Some body) \<Rightarrow>
               (case send env (storage_patch sub token rg account body) w1 of
                  (Inl e, w2) \<Rightarrow> (Inl e, (lg @ [Request (storage_get sub token rg account),
                                    Request (storage_patch sub token rg account body)], w2))
                | (Inr resp2, w2) \<Rightarrow> (Inr [StatusResult (status_code resp2) (resp_text resp2)],
                     (lg @ [Request (storage_get sub token rg account),
                            Request (storage_patch sub token rg account body)], w2)))))"
  by (simp add: manage_storage_firewall_def bindIO_def requests_def lift_def ret_def
      split: prod.splits sum.splits option.splits)

lemma storage_update_frame:
  assumes "storage_update lib act S cur = Inr (Some b)"
  shows "\<exists>acls0 acls'. fetched_acls cur = Inr acls0 \<and> b = patch_body acls'
           \<and> (\<forall>k. k \<noteq> ''ipRules'' \<longrightarrow> map_of acls' k = map_of acls0 k)
           \<and> (act = ''add'' \<or> act = ''remove'')"
proof -
  from assms obtain acls where a: "acls_of cur = Inr acls"
    and r: "bindE (existing_of acls) (\<lambda>existing.
     bindE (expand_all lib S) (\<lambda>expanded_ips.
       if act = ''add'' then
         bindE (py_getitem (JObj acls) ''ipRules'') (\<lambda>rules.
         bindE (add_rules existing rules expanded_ips) (\<lambda>rules'.
           Inr (Some (patch_body (dict_set ''ipRules'' rules' acls)))))
       else if act = ''remove'' then
         bindE (py_getitem (JObj acls) ''ipRules'') (\<lambda>rules.
         bindE (remove_rules rules expanded_ips) (\<lambda>rules'.
           Inr (Some (patch_body (dict_set ''ipRules'' rules' acls)))))
       else Inr None)) = Inr (Some b)"
    unfolding storage_update_def by (auto dest!: bindE_Inr)
  from a obtain acls0 where f: "fetched_acls cur = Inr acls0"
    and ac: "acls = (if map_of acls0 ''ipRules'' = None then dict_set ''ipRules'' (JArr []) acls0 else acls0)"
    unfolding acls_of_def by (auto dest!: bindE_Inr)
  from r obtain rules' where b: "b = patch_body (dict_set ''ipRules'' rules' acls)"
    and act: "act = ''add'' \<or> act = ''remove''"
    by (auto dest!: bindE_Inr split: if_splits)
  have "map_of (dict_set ''ipRules'' rules' acls) k = map_of acls0 k" if "k \<noteq> ''ipRules''" for k
    using that by (simp add: ac map_of_dict_set)
  then show ?thesis using f b act by blast
qed

lemma fetched_acls_present:
  "cur = JObj c \<Longrightarrow> map_of c ''properties'' = Some (JObj p) \<Longrightarrow> map_of p ''networkAcls'' = Some n
   \<Longrightarrow> fetched_acls cur = Inr acls0 \<Longrightarrow> n = JObj acls0"
  by (auto simp: fetched_acls_def py_get_def split: json.splits)

lemma patch_frame:
  assumes run: "manage_storage_firewall lib env sub token rg account act S (lg, w) = (res, (lg', w'))"
    and r: "Request r \<in> set (drop (length lg) lg')" and m: "req_method r = PATCH"
  shows "\<exists>resp w1 cur acls0 acls'.
           send env (storage_get sub token rg account) w = (Inr resp, w1)
         \<and> resp_json resp = Some cur \<and> fetched_acls cur = Inr acls0
         \<and> r = storage_patch sub token rg account (patch_body acls')
         \<and> (\<forall>k. k \<noteq> ''ipRules'' \<longrightarrow> map_of acls' k = map_of acls0 k)"
proof -
  let ?g = "storage_get sub token rg account"
  obtain r1 w1 where s1: "send env ?g w = (r1, w1)" by (cases "send env ?g w")
  have gm: "req_method ?g \<noteq> PATCH" by (simp add: storage_get_def)
  show ?thesis
  proof (cases r1)
    case (Inl e)
    then show ?thesis using run r m s1 gm by (auto simp: manage_storage_run)
  next
    case (Inr resp)
    show ?thesis
    proof (cases "bindE (response_json resp) (storage_update lib act S)")
      case (Inl e)
      then show ?thesis using run r m s1 gm Inr by (auto simp: manage_storage_run)
    next
      case u: (Inr upd)
      show ?thesis
      proof (cases upd)
        case None
        then show ?thesis using run r m s1 gm Inr u by (auto simp: manage_storage_run)
      next
        case (Some body)
        from u Some obtain cur where cur: "resp_json resp = Some cur"
          and su: "storage_update lib act S cur = Inr (Some body)"
          by (auto simp: response_json_def dest!: bindE_Inr split: option.splits)
        from storage_update_frame [OF su] obtain acls0 acls' where
          f: "fetched_acls cur = Inr acls0" and b: "body = patch_body acls'"
          and fr: "\<forall>k. k \<noteq> ''ipRules'' \<longrightarrow> map_of acls' k = map_of acls0 k"
          by blast
        have "lg' = lg @ [Request ?g, Request (storage_patch sub token rg account body)]"
          using run s1 Inr u Some by (auto simp: manage_storage_run split: prod.splits sum.splits)
        then have "r = storage_patch sub token rg account body"
          using r m gm by auto
        then show ?thesis using s1 Inr cur f b fr by blast
      qed
    qed
  qed
qed

subsection \<open>The range backend and the route\<close>

lemma bindIO_ret [simp]: "bindIO (ret x) f = f x"
  by (simp add: bindIO_def ret_def)

lemma bindIO_lift_Inr [simp]: "bindIO (lift (Inr x)) f = f x"
  by (simp add: bindIO_def lift_def)

lemma bindIO_lift_Inl [simp]: "bindIO (lift (Inl e)) f s = (Inl e, s)"
  by (simp add: bindIO_def lift_def)

lemma bindIO_assoc: "bindIO (bindIO m f) g = bindIO m (\<lambda>x. bindIO (f x) g)"
  by (auto simp: bindIO_def fun_eq_iff split: prod.splits sum.splits)

lemma bindIO_ret_right: "bindIO m ret = m"
  by (auto simp: bindIO_def ret_def fun_eq_iff split: prod.splits sum.splits)

lemma bindIO_Inr:
  "bindIO m f s = (Inr y, s') \<Longrightarrow> \<exists>x s1. m s = (Inr x, s1) \<and> f x s1 = (Inr y, s')"
  by (auto simp: bindIO_def split: prod.splits sum.splits)

lemma sql_item_add:
  "parse_ip_range lib ip = Inr (s, e) \<Longrightarrow>
   sql_item lib env base headers ''add'' ex ip (lg, w) =
     (case send env (put_request base headers (strip s) (strip e)) w of
        (Inl err, w1) \<Rightarrow> (Inl err, (lg @ [Request (put_request base headers (strip s) (strip e))], w1))
      | (Inr resp, w1) \<Rightarrow> (Inr [RuleResult ip (status_code resp) (resp_text resp)],
                            (lg @ [Request (put_request base headers (strip s) (strip e))], w1)))"
  unfolding sql_item_def
  by (simp add: Let_def) (simp add: bindIO_def requests_def ret_def split: prod.splits sum.splits)

lemma rule_name_no_dot: "CHR ''.'' \<notin> set (rule_name a b)"
  by (auto simp: rule_name_def replace_char_def)

lemma quad_char_ident: "quad_char c \<Longrightarrow> c \<noteq> CHR ''.'' \<Longrightarrow> ident_char c"
  by (auto simp: quad_char_def ident_char_def is_digit_def Let_def)

lemma underscore_ident: "ident_char (CHR ''_'')"
  by (simp add: ident_char_def)

lemma rule_name_ident:
  assumes "list_all quad_char a" and "list_all quad_char b"
  shows "list_all ident_char (rule_name a b)"
proof -
  have "list_all ident_char (replace_char (CHR ''.'') (CHR ''_'') x)" if "list_all quad_char x" for x
    using that quad_char_ident underscore_ident by (auto simp: replace_char_def list_all_iff)
  moreover have "list_all ident_char ''rule_''" "list_all ident_char ''_''"
    by (simp_all add: ident_char_def)
  ultimately show ?thesis using assms by (simp add: rule_name_def)
qed

lemma str_nat_digits: "list_all is_digit (str_nat n)"
proof (induction n rule: str_nat.induct)
  case (1 n)
  have d: "is_digit (char_of (48 + k))" if "k < 10" for k :: nat
    using that by (simp add: is_digit_def)
  show ?case
  proof (cases "n < 10")
    case True
    then show ?thesis using d [of n] by (subst str_nat.simps) simp
  next
    case False
    then show ?thesis using 1 d [of "n mod 10"] by (subst str_nat.simps) simp
  qed
qed

lemma str4_quad: "list_all quad_char (str4 w)"
proof -
  have "list_all quad_char (str_nat n)" for n
    using str_nat_digits [of n] by (auto simp: list_all_iff quad_char_def)
  then show ?thesis by (simp add: str4_def to_bytes_def quad_char_def)
qed

lemma bindIO_InrE:
  assumes "bindIO m f s = (Inr y, s')"
  obtains x s1 where "m s = (Inr x, s1)" and "f x s1 = (Inr y, s')"
  using assms by (auto simp: bindIO_def split: prod.splits sum.splits)

lemma sql_loop_append:
  "sql_loop lib env base headers act ex (xs @ ys) =
     bindIO (sql_loop lib env base headers act ex xs) (\<lambda>a.
     bindIO (sql_loop lib env base headers act ex ys) (\<lambda>b. ret (a @ b)))"
proof (induction xs)
  case Nil
  then show ?case by (simp add: bindIO_ret_right)
next
  case (Cons x xs)
  show ?case
    by (simp add: Cons bindIO_assoc)
qed

lemma sql_item_not_found:
  assumes "parse_ip_range lib ip = Inr (s, e)" and "matching_rules ex (strip s) (strip e) = Inr []"
  shows "sql_item lib env base headers ''remove'' ex ip st
           = (Inr [RuleResult ip 404 ''No matching rule found''], st)"
  using assms unfolding sql_item_def by (simp add: Let_def) (simp add: ret_def)

lemma sql_loop_not_found:
  assumes "parse_ip_range lib ip = Inr (s, e)" and "matching_rules ex (strip s) (strip e) = Inr []"
  shows "sql_loop lib env base headers ''remove'' ex (before @ ip # after) st =
       (case sql_loop lib env base headers ''remove'' ex before st of
          (Inl err, st1) \<Rightarrow> (Inl err, st1)
        | (Inr rs1, st1) \<Rightarrow>
            (case sql_loop lib env base headers ''remove'' ex after st1 of
               (Inl err, st2) \<Rightarrow> (Inl err, st2)
             | (Inr rs2, st2) \<Rightarrow>
                 (Inr (rs1 @ RuleResult ip 404 ''No matching rule found'' # rs2), st2)))"
proof -
  have item: "sql_item lib env base headers ''remove'' ex ip
           = ret [RuleResult ip 404 ''No matching rule found'']"
    using sql_item_not_found [OF assms] by (auto simp: ret_def fun_eq_iff)
  show ?thesis
    by (simp add: sql_loop_append item) (simp add: bindIO_def ret_def split: prod.splits sum.splits)
qed

lemma sql_loop_state_skip:
  assumes "parse_ip_range lib ip = Inr (s, e)" and "matching_rules ex (strip s) (strip e) = Inr []"
  shows "snd (sql_loop lib env base headers ''remove'' ex (before @ ip # after) st)
       = snd (sql_loop lib env base headers ''remove'' ex (before @ after) st)"
  unfolding sql_loop_not_found [OF assms] sql_loop_append [of _ _ _ _ _ _ before after]
  by (simp add: bindIO_def ret_def split: prod.splits sum.splits)

lemma delete_rules_length:
  "delete_rules env base headers ip ms st = (Inr rs, st') \<Longrightarrow> length rs = length ms"
proof (induction ms arbitrary: st rs st')
  case Nil
  then show ?case by (simp add: ret_def)
next
  case (Cons m ms)
  from Cons.prems have "bindIO (lift (delete_name m)) (\<lambda>name.
     bindIO (requests env \<lparr>req_method = DELETE, req_url = rule_url base name,
                           req_headers = headers, req_json = None\<rparr>) (\<lambda>resp.
     bindIO (delete_rules env base headers ip ms) (\<lambda>rs.
       ret (RuleResult ip (status_code resp) (resp_text resp) # rs)))) st = (Inr rs, st')"
    by simp
  from bindIO_Inr [OF this] obtain name s1 where "lift (delete_name m) st = (Inr name, s1)"
    and r1: "bindIO (requests env \<lparr>req_method = DELETE, req_url = rule_url base name,
                           req_headers = headers, req_json = None\<rparr>) (\<lambda>resp.
     bindIO (delete_rules env base headers ip ms) (\<lambda>rs.
       ret (RuleResult ip (status_code resp) (resp_text resp) # rs))) s1 = (Inr rs, st')"
    by (elim exE conjE)
  from bindIO_Inr [OF r1] obtain resp s2 where
    "requests env \<lparr>req_method = DELETE, req_url = rule_url base name,
                           req_headers = headers, req_json = None\<rparr> s1 = (Inr resp, s2)"
    and r2: "bindIO (delete_rules env base headers ip ms) (\<lambda>rs.
       ret (RuleResult ip (status_code resp) (resp_text resp) # rs)) s2 = (Inr rs, st')"
    by (elim exE conjE)
  from bindIO_Inr [OF r2] obtain rs' s3 where d: "delete_rules env base headers ip ms s2 = (Inr rs', s3)"
    and "ret (RuleResult ip (status_code resp) (resp_text resp) # rs') s3 = (Inr rs, st')"
    by (elim exE conjE)
  then have "rs = RuleResult ip (status_code resp) (resp_text resp) # rs'" by (simp add: ret_def)
  then show ?case using Cons.IH [OF d] by simp
qed

lemma sql_item_length:
  assumes "sql_item lib env base headers act ex ip st = (Inr rs, st')"
  shows "length rs = item_count lib act ex ip \<and> 0 < length rs"
proof -
  from bindIO_Inr [OF assms [unfolded sql_item_def]] obtain iv s1 where p: "lift (parse_ip_range lib ip) st = (Inr iv, s1)"
    and r: "(case iv of (start_ip0, end_ip0) \<Rightarrow>
       let start_ip = strip start_ip0; end_ip = strip end_ip0 in
       if act = ''add'' then
         bindIO (requests env (put_request base headers start_ip end_ip)) (\<lambda>resp.
           ret [RuleResult ip (status_code resp) (resp_text resp)])
       else if act = ''remove'' then
         bindIO (lift (matching_rules ex start_ip end_ip)) (\<lambda>matching.
           if matching = [] then ret [RuleResult ip 404 ''No matching rule found'']
           else delete_rules env base headers ip matching)
       else ret [ErrorResult (''Invalid action: '' @ act)]) s1 = (Inr rs, st')"
    by (elim exE conjE)
  obtain s e where iv: "iv = (s, e)" by (cases iv)
  from p iv have pe: "parse_ip_range lib ip = Inr (s, e)" by (simp add: lift_def)
  show ?thesis
  proof (cases "act = ''add''")
    case True
    then show ?thesis using r iv
      by (auto simp: Let_def item_count_def ret_def elim!: bindIO_InrE)
  next
    case False
    show ?thesis
    proof (cases "act = ''remove''")
      case True
      from r iv True obtain ms s2 where m: "lift (matching_rules ex (strip s) (strip e)) s1 = (Inr ms, s2)"
        and d: "(if ms = [] then ret [RuleResult ip 404 ''No matching rule found'']
           else delete_rules env base headers ip ms) s2 = (Inr rs, st')"
        by (auto simp: Let_def elim: bindIO_InrE)
      from m have me: "matching_rules ex (strip s) (strip e) = Inr ms" by (simp add: lift_def)
      have "length rs = max 1 (length ms)"
      proof (cases "ms = []")
        case True
        then show ?thesis using d by (auto simp: ret_def)
      next
        case False
        then have "delete_rules env base headers ip ms s2 = (Inr rs, st')" using d by simp
        then have "length rs = length ms" by (rule delete_rules_length)
        then show ?thesis using False by (cases ms) auto
      qed
      then show ?thesis using True pe me by (simp add: item_count_def results_for_def)
    next
      case False
      then show ?thesis using r iv \<open>act \<noteq> ''add''\<close>
        by (auto simp: Let_def item_count_def ret_def)
    qed
  qed
qed

lemma sql_loop_length:
  "sql_loop lib env base headers act ex ips st = (Inr rs, st') \<Longrightarrow>
   length rs = sum_list (map (item_count lib act ex) ips) \<and> length ips \<le> length rs"
proof (induction ips arbitrary: st rs st')
  case Nil
  then show ?case by (simp add: ret_def)
next
  case (Cons ip ips)
  from Cons.prems have "bindIO (sql_item lib env base headers act ex ip) (\<lambda>rs.
     bindIO (sql_loop lib env base headers act ex ips) (\<lambda>rest. ret (rs @ rest))) st = (Inr rs, st')"
    by simp
  from bindIO_Inr [OF this] obtain r1 s1 where i: "sql_item lib env base headers act ex ip st = (Inr r1, s1)"
    and r: "bindIO (sql_loop lib env base headers act ex ips) (\<lambda>rest. ret (r1 @ rest)) s1 = (Inr rs, st')"
    by (elim exE conjE)
  from bindIO_Inr [OF r] obtain r2 s2 where l: "sql_loop lib env base headers act ex ips s1 = (Inr r2, s2)"
    and "ret (r1 @ r2) s2 = (Inr rs, st')"
    by (elim exE conjE)
  then have "rs = r1 @ r2" by (simp add: ret_def)
  moreover have "length r1 = item_count lib act ex ip"
    using sql_item_length [OF i] by (rule conjunct1)
  moreover have "0 < length r1"
    using sql_item_length [OF i] by (rule conjunct2)
  moreover have "length r2 = sum_list (map (item_count lib act ex) ips)"
    using Cons.IH [OF l] by (rule conjunct1)
  moreover have "length ips \<le> length r2"
    using Cons.IH [OF l] by (rule conjunct2)
  ultimately show ?case by (simp del: length_greater_0_conv)
qed

lemma manage_sql_run:
  "manage_sql_firewall lib env token sub rg server act ips (lg, w) =
     (case send env (sql_list_request (sql_base sub rg server) (auth_headers token)) w of
        (Inl e, w1) \<Rightarrow>
          (Inl e, (lg @ [Request (sql_list_request (sql_base sub rg server) (auth_headers token))], w1))
      | (Inr resp, w1) \<Rightarrow>
          if status_code resp \<noteq> 200 then
            (Inr [ErrorResult (''Failed to get existing rules: '' @ resp_text resp)],
             (lg @ [Request (sql_list_request (sql_base sub rg server) (auth_headers token))], w1))
          else
            (case bindE (response_json resp) (\<lambda>j. py_get j ''value'' (JArr [])) of
               Inl e \<Rightarrow>
                 (Inl e, (lg @ [Request (sql_list_request (sql_base sub rg server) (auth_headers token))], w1))
             | Inr ex \<Rightarrow>
                 sql_loop lib env (sql_base sub rg server) (auth_headers token) act ex ips
                   (lg @ [Request (sql_list_request (sql_base sub rg server) (auth_headers token))], w1)))"
  by (simp add: manage_sql_firewall_def Let_def bindIO_def requests_def lift_def ret_def
      split: prod.splits sum.splits)

lemma item_count_other: "act \<noteq> ''remove'' \<Longrightarrow> sum_list (map (item_count lib act ex) ips) = length ips"
  by (induction ips) (auto simp: item_count_def)

lemma item_count_remove: "map (item_count lib ''remove'' ex) ips = map (results_for lib ex) ips"
  by (simp add: item_count_def)

lemma manage_storage_one:
  "manage_storage_firewall lib env sub token rg account act S st = (Inr rs, st') \<Longrightarrow> length rs = 1"
  by (cases st) (auto simp: manage_storage_run split: prod.splits sum.splits option.splits)

lemma sql_results:
  assumes run: "manage_sql_firewall lib env token sub rg server act ips (lg, w) = (Inr results, st')"
    and get: "send env (sql_list_request (sql_base sub rg server) (auth_headers token)) w = (Inr resp, w1)"
  shows "(status_code resp \<noteq> 200 \<longrightarrow>
            results = [ErrorResult (''Failed to get existing rules: '' @ resp_text resp)])
       \<and> (status_code resp = 200 \<and> act \<noteq> ''remove'' \<longrightarrow> length results = length ips)
       \<and> (status_code resp = 200 \<and> act = ''remove'' \<longrightarrow>
            (\<exists>ex. bindE (response_json resp) (\<lambda>j. py_get j ''value'' (JArr [])) = Inr ex
                \<and> length results = sum_list (map (results_for lib ex) ips)
                \<and> length ips \<le> length results))"
proof (cases "status_code resp = 200")
  case False
  then show ?thesis using run get by (simp add: manage_sql_run)
next
  case True
  from run get True obtain ex where
    ex: "bindE (response_json resp) (\<lambda>j. py_get j ''value'' (JArr [])) = Inr ex"
    and loop: "sql_loop lib env (sql_base sub rg server) (auth_headers token) act ex ips
                 (lg @ [Request (sql_list_request (sql_base sub rg server) (auth_headers token))], w1)
               = (Inr results, st')"
    by (auto simp: manage_sql_run split: sum.splits)
  note len = sql_loop_length [OF loop]
  show ?thesis
  proof (cases "act = ''remove''")
    case r: True
    then show ?thesis using True ex len by (simp add: item_count_remove)
  next
    case r: False
    then show ?thesis using True len by (simp add: item_count_other)
  qed
qed

lemma sql_item_invalid_action:
  "act \<noteq> ''add'' \<Longrightarrow> act \<noteq> ''remove'' \<Longrightarrow>
   snd (sql_item lib env base headers act ex ip st) = st"
  unfolding sql_item_def
  by (cases "parse_ip_range lib ip") (auto simp: Let_def ret_def split: prod.splits)

lemma sql_loop_invalid_action:
  "act \<noteq> ''add'' \<Longrightarrow> act \<noteq> ''remove'' \<Longrightarrow>
   snd (sql_loop lib env base headers act ex ips st) = st"
proof (induction ips arbitrary: st)
  case Nil
  then show ?case by (simp add: ret_def)
next
  case (Cons ip ips)
  have i: "snd (sql_item lib env base headers act ex ip st) = st"
    using Cons.prems by (rule sql_item_invalid_action)
  obtain r1 s1 where s: "sql_item lib env base headers act ex ip st = (r1, s1)"
    by (cases "sql_item lib env base headers act ex ip st")
  with i have s1: "s1 = st" by simp
  obtain r2 s2 where l: "sql_loop lib env base headers act ex ips st = (r2, s2)"
    by (cases "sql_loop lib env base headers act ex ips st")
  with Cons.IH [OF Cons.prems, of st] have s2: "s2 = st" by simp
  show ?case
    by (cases r1; cases r2) (simp_all add: bindIO_def ret_def s s1 l s2)
qed

lemma handler_run:
  assumes "credential env w = (Inr token, w1)"
  shows "HttpTriggerIPFunc lib env data (lg, w) =
    (if lower (serviceType data) = ''sql'' then
       (case manage_sql_firewall lib env token (subscription_of data) (resourceGroup data)
               (serviceName data) (lower (action data)) (ipRules data) (lg @ [Token], w1) of
          (Inl e, s') \<Rightarrow> (\<lparr>http_status = 500, http_body = Exception e\<rparr>, s')
        | (Inr rs, s') \<Rightarrow> (\<lparr>http_status = 200, http_body = Results rs\<rparr>, s'))
     else if lower (serviceType data) = ''storage'' then
       (case manage_storage_firewall lib env (subscription_of data) token (resourceGroup data)
               (serviceName data) (lower (action data)) (ipRules data) (lg @ [Token], w1) of
          (Inl e, s') \<Rightarrow> (\<lparr>http_status = 500, http_body = Exception e\<rparr>, s')
        | (Inr rs, s') \<Rightarrow> (\<lparr>http_status = 200, http_body = Results rs\<rparr>, s'))
     else (\<lparr>http_status = 400,
             http_body = ErrorMessage ''Invalid serviceType. Use 'sql' or 'storage'.''\<rparr>,
           (lg @ [Token], w1)))"
  using assms
  by (simp add: HttpTriggerIPFunc_def Let_def subscription_of_def bindIO_def get_access_token_def
      ret_def split: prod.splits sum.splits)

lemma handler_no_token:
  assumes "credential env w = (Inl e, w1)"
  shows "HttpTriggerIPFunc lib env data (lg, w)
           = (\<lparr>http_status = 500, http_body = Exception e\<rparr>, (lg @ [Token], w1))"
  using assms
  by (simp add: HttpTriggerIPFunc_def Let_def bindIO_def get_access_token_def)

lemma manage_sql_invalid_action:
  assumes "act \<noteq> ''add''" and "act \<noteq> ''remove''"
  shows "\<exists>w2. snd (manage_sql_firewall lib env token sub rg server act ips (lg, w))
           = (lg @ [Request (sql_list_request (sql_base sub rg server) (auth_headers token))], w2)"
  by (auto simp: manage_sql_run sql_loop_invalid_action [OF assms] split: prod.splits sum.splits)

lemma manage_storage_invalid_action:
  assumes "act \<noteq> ''add''" and "act \<noteq> ''remove''"
  shows "\<exists>w2. snd (manage_storage_firewall lib env sub token rg account act S (lg, w))
           = (lg @ [Request (storage_get sub token rg account)], w2)"
proof -
  have "storage_update lib act S cur \<noteq> Inr (Some b)" for cur b
    using storage_update_frame [of lib act S cur b] assms by auto
  then have "bindE (response_json resp) (storage_update lib act S) \<noteq> Inr (Some b)" for resp b
    by (cases "response_json resp") auto
  then show ?thesis
    by (auto simp: manage_storage_run split: prod.splits sum.splits option.splits)
qed

text \<open>
  C2, as the code has it. Once the token is acquired (the route asks for it before it
  looks at the service type), a service type that is neither \<^verbatim>\<open>sql\<close> nor
  \<^verbatim>\<open>storage\<close> in lower case gives the 400 response, and no request to the management
  API is sent. An action that is neither \<^verbatim>\<open>add\<close> nor \<^verbatim>\<open>remove\<close> is not rejected
  up front: for a valid service type the route sends the GET for the current state and
  nothing else (no PUT, DELETE or PATCH), and answers with 200 (the invalid action is
  reported inside the results) or with 500, never with 400.
\<close>

theorem invalid_request:
  assumes "credential env w = (Inr token, w1)"
  shows "(lower (serviceType data) \<noteq> ''sql'' \<and> lower (serviceType data) \<noteq> ''storage'' \<longrightarrow>
            HttpTriggerIPFunc lib env data (lg, w)
              = (\<lparr>http_status = 400,
                   http_body = ErrorMessage ''Invalid serviceType. Use 'sql' or 'storage'.''\<rparr>,
                 (lg @ [Token], w1)))
       \<and> (lower (action data) \<noteq> ''add'' \<and> lower (action data) \<noteq> ''remove''
            \<and> lower (serviceType data) = ''sql'' \<longrightarrow>
            (\<exists>w2. snd (HttpTriggerIPFunc lib env data (lg, w))
               = (lg @ [Token, Request (sql_list_request
                    (sql_base (subscription_of data) (resourceGroup data) (serviceName data))
                    (auth_headers token))], w2))
            \<and> http_status (fst (HttpTriggerIPFunc lib env data (lg, w))) \<in> {200, 500})
       \<and> (lower (action data) \<noteq> ''add'' \<and> lower (action data) \<noteq> ''remove''
            \<and> lower (serviceType data) = ''storage'' \<longrightarrow>
            (\<exists>w2. snd (HttpTriggerIPFunc lib env data (lg, w))
               = (lg @ [Token, Request (storage_get (subscription_of data) token
                    (resourceGroup data) (serviceName data))], w2))
            \<and> http_status (fst (HttpTriggerIPFunc lib env data (lg, w))) \<in> {200, 500})"
proof (intro conjI impI)
  assume "lower (serviceType data) \<noteq> ''sql'' \<and> lower (serviceType data) \<noteq> ''storage''"
  then show "HttpTriggerIPFunc lib env data (lg, w)
              = (\<lparr>http_status = 400,
                   http_body = ErrorMessage ''Invalid serviceType. Use 'sql' or 'storage'.''\<rparr>,
                 (lg @ [Token], w1))"
    by (simp add: handler_run [OF assms])
next
  assume a: "lower (action data) \<noteq> ''add'' \<and> lower (action data) \<noteq> ''remove''
            \<and> lower (serviceType data) = ''sql''"
  let ?m = "manage_sql_firewall lib env token (subscription_of data) (resourceGroup data)
               (serviceName data) (lower (action data)) (ipRules data) (lg @ [Token], w1)"
  obtain r s' where m: "?m = (r, s')" by (cases ?m)
  from a manage_sql_invalid_action [of "lower (action data)" lib env token "subscription_of data"
      "resourceGroup data" "serviceName data" "ipRules data" "lg @ [Token]" w1]
  obtain w2 where "snd ?m = ((lg @ [Token]) @ [Request (sql_list_request
                    (sql_base (subscription_of data) (resourceGroup data) (serviceName data))
                    (auth_headers token))], w2)"
    by blast
  with m have s': "s' = (lg @ [Token, Request (sql_list_request
                    (sql_base (subscription_of data) (resourceGroup data) (serviceName data))
                    (auth_headers token))], w2)"
    by simp
  have h: "HttpTriggerIPFunc lib env data (lg, w) =
     (case r of Inl e \<Rightarrow> (\<lparr>http_status = 500, http_body = Exception e\<rparr>, s')
              | Inr rs \<Rightarrow> (\<lparr>http_status = 200, http_body = Results rs\<rparr>, s'))"
    using a by (simp add: handler_run [OF assms] m split: sum.splits)
  show "\<exists>w2. snd (HttpTriggerIPFunc lib env data (lg, w))
               = (lg @ [Token, Request (sql_list_request
                    (sql_base (subscription_of data) (resourceGroup data) (serviceName data))
                    (auth_headers token))], w2)"
    unfolding h using s' by (cases r) auto
  show "http_status (fst (HttpTriggerIPFunc lib env data (lg, w))) \<in> {200, 500}"
    unfolding h by (cases r) auto
next
  assume a: "lower (action data) \<noteq> ''add'' \<and> lower (action data) \<noteq> ''remove''
            \<and> lower (serviceType data) = ''storage''"
  then have ns: "lower (serviceType data) \<noteq> ''sql''" by simp
  let ?m = "manage_storage_firewall lib env (subscription_of data) token (resourceGroup data)
               (serviceName data) (lower (action data)) (ipRules data) (lg @ [Token], w1)"
  obtain r s' where m: "?m = (r, s')" by (cases ?m)
  from a manage_storage_invalid_action [of "lower (action data)" lib env "subscription_of data" token
      "resourceGroup data" "serviceName data" "ipRules data" "lg @ [Token]" w1]
  obtain w2 where "snd ?m = ((lg @ [Token]) @ [Request (storage_get (subscription_of data) token
                    (resourceGroup data) (serviceName data))], w2)"
    by blast
  with m have s': "s' = (lg @ [Token, Request (storage_get (subscription_of data) token
                    (resourceGroup data) (serviceName data))], w2)"
    by simp
  have h: "HttpTriggerIPFunc lib env data (lg, w) =
     (case r of Inl e \<Rightarrow> (\<lparr>http_status = 500, http_body = Exception e\<rparr>, s')
              | Inr rs \<Rightarrow> (\<lparr>http_status = 200, http_body = Results rs\<rparr>, s'))"
    using a ns by (simp add: handler_run [OF assms] m split: sum.splits)
  show "\<exists>w2. snd (HttpTriggerIPFunc lib env data (lg, w))
               = (lg @ [Token, Request (storage_get (subscription_of data) token
                    (resourceGroup data) (serviceName data))], w2)"
    unfolding h using s' by (cases r) auto
  show "http_status (fst (HttpTriggerIPFunc lib env data (lg, w))) \<in> {200, 500}"
    unfolding h by (cases r) auto
qed

lemma send_fixed: "send (env_fixed resp) r w = (Inr resp, w)"
  by (simp add: env_fixed_def)

lemma credential_fixed: "credential (env_fixed resp) w = (Inr ''t'', w)"
  by (simp add: env_fixed_def)

lemma requests_fixed: "requests (env_fixed resp) r (lg, w) = (Inr resp, (lg @ [Request r], w))"
  by (simp add: requests_def send_fixed)

lemma ok_response_sel:
  "status_code (ok_response j) = 200" "resp_text (ok_response j) = ''ok''"
  "response_json (ok_response j) = Inr j"
  by (simp_all add: ok_response_def response_json_def)

text \<open>
  C8. With action remove, an input item that parses and matches no existing rule (the
  trimmed start and end strings are compared) gives the single result with status 404
  and the message \<^verbatim>\<open>No matching rule found\<close>, sends nothing and raises nothing; the
  items before and after it are processed as they would be without it, and the batch
  leaves the same calls and the same remote state as the batch without the item.
\<close>

theorem remove_absent_rule:
  assumes "parse_ip_range lib ip = Inr (s, e)" and "matching_rules ex (strip s) (strip e) = Inr []"
  shows "sql_item lib env base headers ''remove'' ex ip st
           = (Inr [RuleResult ip 404 ''No matching rule found''], st)
       \<and> sql_loop lib env base headers ''remove'' ex (before @ ip # after) st =
           (case sql_loop lib env base headers ''remove'' ex before st of
              (Inl err, st1) \<Rightarrow> (Inl err, st1)
            | (Inr rs1, st1) \<Rightarrow>
                (case sql_loop lib env base headers ''remove'' ex after st1 of
                   (Inl err, st2) \<Rightarrow> (Inl err, st2)
                 | (Inr rs2, st2) \<Rightarrow>
                     (Inr (rs1 @ RuleResult ip 404 ''No matching rule found'' # rs2), st2)))
       \<and> snd (sql_loop lib env base headers ''remove'' ex (before @ ip # after) st)
           = snd (sql_loop lib env base headers ''remove'' ex (before @ after) st)"
  using sql_item_not_found [OF assms] sql_loop_not_found [OF assms] sql_loop_state_skip [OF assms]
  by blast

theorem remove_absent_rule_witness:
  "parse_ip_range no_ipv6 ''10.0.0.5'' = Inr (''10.0.0.5'', ''10.0.0.5'')
   \<and> matching_rules (JArr [sql_rule ''r1'' ''10.0.0.1'' ''10.0.0.1'']) (strip ''10.0.0.5'') (strip ''10.0.0.5'')
        = Inr []
   \<and> sql_item no_ipv6 (env_fixed (ok_response JNull)) ''b'' [] ''remove''
        (JArr [sql_rule ''r1'' ''10.0.0.1'' ''10.0.0.1'']) ''10.0.0.5'' ([], ())
        = (Inr [RuleResult ''10.0.0.5'' 404 ''No matching rule found''], ([], ()))"
proof -
  have h1: "parse_ip_range no_ipv6 ''10.0.0.5'' = Inr (''10.0.0.5'', ''10.0.0.5'')"
    by code_simp
  have h2: "matching_rules (JArr [sql_rule ''r1'' ''10.0.0.1'' ''10.0.0.1''])
        (strip ''10.0.0.5'') (strip ''10.0.0.5'') = Inr []"
    by code_simp
  from remove_absent_rule [OF h1 h2, of "env_fixed (ok_response JNull)" "''b''" "[]" "([], ())"]
  have "sql_item no_ipv6 (env_fixed (ok_response JNull)) ''b'' [] ''remove''
        (JArr [sql_rule ''r1'' ''10.0.0.1'' ''10.0.0.1'']) ''10.0.0.5'' ([], ())
        = (Inr [RuleResult ''10.0.0.5'' 404 ''No matching rule found''], ([], ()))"
    by (rule conjunct1)
  with h1 h2 show ?thesis by (intro conjI)
qed

text \<open>
  C9, as the code has it. When the range backend returns and its GET answered with
  status 200: add (and an unknown action) gives exactly one result for each input item;
  remove gives, for each input item, one result for each matching rule, or one (the 404)
  when none matches, so at least one for each item and more where several rules match.
  When the GET did not answer with 200 the result is a single error entry, however many
  the inputs. The list backend, when it returns, returns exactly one result.
\<close>

theorem results_per_input:
  assumes "manage_sql_firewall lib env token sub rg server act ips (lg, w) = (Inr results, st')"
    and "send env (sql_list_request (sql_base sub rg server) (auth_headers token)) w = (Inr resp, w1)"
  shows "(status_code resp \<noteq> 200 \<longrightarrow>
            results = [ErrorResult (''Failed to get existing rules: '' @ resp_text resp)])
       \<and> (status_code resp = 200 \<and> act \<noteq> ''remove'' \<longrightarrow> length results = length ips)
       \<and> (status_code resp = 200 \<and> act = ''remove'' \<longrightarrow>
            (\<exists>ex. bindE (response_json resp) (\<lambda>j. py_get j ''value'' (JArr [])) = Inr ex
                \<and> length results = sum_list (map (results_for lib ex) ips)
                \<and> length ips \<le> length results))
       \<and> (manage_storage_firewall lib env sub token rg account act ips st0 = (Inr rs, st1)
            \<longrightarrow> length rs = 1)"
  using sql_results [OF assms] manage_storage_one [of lib env sub token rg account act ips st0 rs st1]
  by blast

lemma sql_add_two:
  "manage_sql_firewall no_ipv6 (env_fixed (ok_response (JObj []))) ''t'' ''sub'' ''rg'' ''srv''
       ''add'' [''10.0.0.1'', ''10.0.0.2''] ([], ())
     = (Inr [RuleResult ''10.0.0.1'' 200 ''ok'', RuleResult ''10.0.0.2'' 200 ''ok''],
        ([Request (sql_list_request (sql_base ''sub'' ''rg'' ''srv'') (auth_headers ''t'')),
          Request (put_request (sql_base ''sub'' ''rg'' ''srv'') (auth_headers ''t'') ''10.0.0.1'' ''10.0.0.1''),
          Request (put_request (sql_base ''sub'' ''rg'' ''srv'') (auth_headers ''t'') ''10.0.0.2'' ''10.0.0.2'')],
         ()))"
proof -
  have p: "parse_ip_range no_ipv6 ''10.0.0.1'' = Inr (''10.0.0.1'', ''10.0.0.1'')"
    "parse_ip_range no_ipv6 ''10.0.0.2'' = Inr (''10.0.0.2'', ''10.0.0.2'')"
    by code_simp+
  have s: "strip ''10.0.0.1'' = ''10.0.0.1''" "strip ''10.0.0.2'' = ''10.0.0.2''"
    by code_simp+
  have v: "py_get (JObj []) ''value'' (JArr []) = Inr (JArr [])" by (simp add: py_get_def)
  show ?thesis
    by (simp add: manage_sql_run send_fixed ok_response_sel v)
       (simp add: bindIO_def ret_def sql_item_add p s send_fixed ok_response_sel)
qed

theorem results_per_input_witness:
  "manage_sql_firewall no_ipv6 (env_fixed (ok_response (JObj []))) ''t'' ''sub'' ''rg'' ''srv''
       ''add'' [''10.0.0.1'', ''10.0.0.2''] ([], ())
     = (Inr [RuleResult ''10.0.0.1'' 200 ''ok'', RuleResult ''10.0.0.2'' 200 ''ok''],
        ([Request (sql_list_request (sql_base ''sub'' ''rg'' ''srv'') (auth_headers ''t'')),
          Request (put_request (sql_base ''sub'' ''rg'' ''srv'') (auth_headers ''t'') ''10.0.0.1'' ''10.0.0.1''),
          Request (put_request (sql_base ''sub'' ''rg'' ''srv'') (auth_headers ''t'') ''10.0.0.2'' ''10.0.0.2'')],
         ()))
   \<and> send (env_fixed (ok_response (JObj [])))
        (sql_list_request (sql_base ''sub'' ''rg'' ''srv'') (auth_headers ''t'')) ()
       = (Inr (ok_response (JObj [])), ())
   \<and> length [RuleResult ''10.0.0.1'' 200 ''ok'', RuleResult ''10.0.0.2'' 200 ''ok'']
       = length [''10.0.0.1'', ''10.0.0.2'']"
proof -
  note run = sql_add_two
  have get: "send (env_fixed (ok_response (JObj [])))
        (sql_list_request (sql_base ''sub'' ''rg'' ''srv'') (auth_headers ''t'')) ()
       = (Inr (ok_response (JObj [])), ())"
    by (rule send_fixed)
  have "status_code (ok_response (JObj [])) = 200 \<and> ''add'' \<noteq> ''remove'' \<longrightarrow>
      length [RuleResult ''10.0.0.1'' 200 ''ok'', RuleResult ''10.0.0.2'' 200 ''ok'']
       = length [''10.0.0.1'', ''10.0.0.2'']"
    using results_per_input [OF run get, THEN conjunct2, THEN conjunct1] .
  then have "length [RuleResult ''10.0.0.1'' 200 ''ok'', RuleResult ''10.0.0.2'' 200 ''ok'']
       = length [''10.0.0.1'', ''10.0.0.2'']"
    by (simp add: ok_response_sel)
  with run get show ?thesis by (intro conjI)
qed

text \<open>
  C9 as stated fails: two existing rules with the same start and end give two results
  for one input item.
\<close>

theorem remove_two_results_for_one_input:
  "fst (manage_sql_firewall no_ipv6
         (env_fixed (ok_response (JObj [(''value'',
            JArr [sql_rule ''a'' ''10.0.0.1'' ''10.0.0.1'', sql_rule ''b'' ''10.0.0.1'' ''10.0.0.1''])])))
         ''t'' ''sub'' ''rg'' ''srv'' ''remove'' [''10.0.0.1''] ([], ()))
     = Inr [RuleResult ''10.0.0.1'' 200 ''ok'', RuleResult ''10.0.0.1'' 200 ''ok'']"
proof -
  let ?ex = "JArr [sql_rule ''a'' ''10.0.0.1'' ''10.0.0.1'', sql_rule ''b'' ''10.0.0.1'' ''10.0.0.1'']"
  have p: "parse_ip_range no_ipv6 ''10.0.0.1'' = Inr (''10.0.0.1'', ''10.0.0.1'')"
    by code_simp
  have s: "strip ''10.0.0.1'' = ''10.0.0.1''" by code_simp
  have m: "matching_rules ?ex ''10.0.0.1'' ''10.0.0.1''
             = Inr [sql_rule ''a'' ''10.0.0.1'' ''10.0.0.1'', sql_rule ''b'' ''10.0.0.1'' ''10.0.0.1'']"
    by code_simp
  have d: "delete_name (sql_rule ''a'' ''10.0.0.1'' ''10.0.0.1'') = Inr ''a''"
    "delete_name (sql_rule ''b'' ''10.0.0.1'' ''10.0.0.1'') = Inr ''b''"
    by code_simp+
  have v: "py_get (JObj [(''value'', ?ex)]) ''value'' (JArr []) = Inr ?ex" by (simp add: py_get_def)
  have ne: "[sql_rule ''a'' ''10.0.0.1'' ''10.0.0.1'', sql_rule ''b'' ''10.0.0.1'' ''10.0.0.1''] \<noteq> []"
    by simp
  have item: "sql_item no_ipv6 (env_fixed (ok_response (JObj [(''value'', ?ex)])))
        base headers ''remove'' ?ex ''10.0.0.1'' st
      = delete_rules (env_fixed (ok_response (JObj [(''value'', ?ex)]))) base headers ''10.0.0.1''
          [sql_rule ''a'' ''10.0.0.1'' ''10.0.0.1'', sql_rule ''b'' ''10.0.0.1'' ''10.0.0.1''] st"
    for base headers st
    unfolding sql_item_def by (simp add: p s m Let_def del: not_Cons_self2)
  show ?thesis
    unfolding manage_sql_run send_fixed
    by (simp add: ok_response_sel v)
       (simp add: bindIO_def item d lift_def requests_def send_fixed ret_def ok_response_sel)
qed

theorem invalid_request_witness:
  "credential (env_fixed (ok_response JNull)) () = (Inr ''t'', ())
   \<and> lower ''blob'' \<noteq> ''sql'' \<and> lower ''blob'' \<noteq> ''storage''
   \<and> HttpTriggerIPFunc no_ipv6 (env_fixed (ok_response JNull))
        \<lparr>subscriptionId = None, serviceType = ''blob'', serviceName = ''acct'',
         resourceGroup = ''rg'', action = ''add'', ipRules = [''10.0.0.1'']\<rparr> ([], ())
       = (\<lparr>http_status = 400,
            http_body = ErrorMessage ''Invalid serviceType. Use 'sql' or 'storage'.''\<rparr>,
          ([Token], ()))"
proof -
  let ?data = "\<lparr>subscriptionId = None, serviceType = ''blob'', serviceName = ''acct'',
         resourceGroup = ''rg'', action = ''add'', ipRules = [''10.0.0.1'']\<rparr>"
  have c: "credential (env_fixed (ok_response JNull)) () = (Inr ''t'', ())"
    by (rule credential_fixed)
  have l: "lower ''blob'' \<noteq> ''sql''" "lower ''blob'' \<noteq> ''storage''" by code_simp+
  have "lower (serviceType ?data) \<noteq> ''sql'' \<and> lower (serviceType ?data) \<noteq> ''storage'' \<longrightarrow>
            HttpTriggerIPFunc no_ipv6 (env_fixed (ok_response JNull)) ?data ([], ())
              = (\<lparr>http_status = 400,
                   http_body = ErrorMessage ''Invalid serviceType. Use 'sql' or 'storage'.''\<rparr>,
                 ([] @ [Token], ()))"
    using invalid_request [OF c, of ?data no_ipv6 "[]"] by (rule conjunct1)
  then have "HttpTriggerIPFunc no_ipv6 (env_fixed (ok_response JNull)) ?data ([], ())
              = (\<lparr>http_status = 400,
                   http_body = ErrorMessage ''Invalid serviceType. Use 'sql' or 'storage'.''\<rparr>,
                 ([Token], ()))"
    using l by simp
  with c l show ?thesis by (intro conjI)
qed

text \<open>
  C2 as stated fails for the action: \<^verbatim>\<open>delete\<close> on the range backend is answered with
  200 after the GET has been sent, with one error entry for each input item, and so with
  no entry at all when there is no input item.
\<close>

theorem invalid_action_not_rejected:
  "HttpTriggerIPFunc no_ipv6 (env_fixed (ok_response (JObj [(''value'', JArr [])])))
        \<lparr>subscriptionId = Some ''sub'', serviceType = ''sql'', serviceName = ''srv'',
         resourceGroup = ''rg'', action = ''delete'', ipRules = [''10.0.0.1'']\<rparr> ([], ())
     = (\<lparr>http_status = 200, http_body = Results [ErrorResult ''Invalid action: delete'']\<rparr>,
        ([Token, Request (sql_list_request (sql_base ''sub'' ''rg'' ''srv'') (auth_headers ''t''))], ()))
   \<and> HttpTriggerIPFunc no_ipv6 (env_fixed (ok_response (JObj [(''value'', JArr [])])))
        \<lparr>subscriptionId = Some ''sub'', serviceType = ''sql'', serviceName = ''srv'',
         resourceGroup = ''rg'', action = ''delete'', ipRules = []\<rparr> ([], ())
     = (\<lparr>http_status = 200, http_body = Results []\<rparr>,
        ([Token, Request (sql_list_request (sql_base ''sub'' ''rg'' ''srv'') (auth_headers ''t''))], ()))"
proof -
  have l: "lower ''sql'' = ''sql''" "lower ''delete'' = ''delete''" by code_simp+
  have p: "parse_ip_range no_ipv6 ''10.0.0.1'' = Inr (''10.0.0.1'', ''10.0.0.1'')"
    by code_simp
  have v: "py_get (JObj [(''value'', JArr [])]) ''value'' (JArr []) = Inr (JArr [])"
    by (simp add: py_get_def)
  have item: "sql_item no_ipv6 env base headers ''delete'' ex ''10.0.0.1''
      = ret [ErrorResult (''Invalid action: '' @ ''delete'')]" for env :: "unit env" and base headers ex
    unfolding sql_item_def by (simp add: p Let_def)
  have one: "HttpTriggerIPFunc no_ipv6 (env_fixed (ok_response (JObj [(''value'', JArr [])])))
        \<lparr>subscriptionId = Some ''sub'', serviceType = ''sql'', serviceName = ''srv'',
         resourceGroup = ''rg'', action = ''delete'', ipRules = [''10.0.0.1'']\<rparr> ([], ())
     = (\<lparr>http_status = 200, http_body = Results [ErrorResult ''Invalid action: delete'']\<rparr>,
        ([Token, Request (sql_list_request (sql_base ''sub'' ''rg'' ''srv'') (auth_headers ''t''))], ()))"
    by (simp add: handler_run [OF credential_fixed] l subscription_of_def manage_sql_run send_fixed
        ok_response_sel v item)
       (simp add: ret_def)
  have none: "HttpTriggerIPFunc no_ipv6 (env_fixed (ok_response (JObj [(''value'', JArr [])])))
        \<lparr>subscriptionId = Some ''sub'', serviceType = ''sql'', serviceName = ''srv'',
         resourceGroup = ''rg'', action = ''delete'', ipRules = []\<rparr> ([], ())
     = (\<lparr>http_status = 200, http_body = Results []\<rparr>,
        ([Token, Request (sql_list_request (sql_base ''sub'' ''rg'' ''srv'') (auth_headers ''t''))], ()))"
    by (simp add: handler_run [OF credential_fixed] l subscription_of_def manage_sql_run send_fixed
        ok_response_sel v)
       (simp add: ret_def)
  from one none show ?thesis by (rule conjI)
qed

subsection \<open>Blocks of addresses\<close>

lemma make_netmask_le: "make_netmask m = Some p \<Longrightarrow> p \<le> 32"
  by (auto simp: make_netmask_def prefix_from_prefix_string_def prefix_from_ip_string_def
      prefix_from_ip_int_def Let_def split: option.splits if_splits)

lemma ip_int_from_prefix_mask: "p \<le> 32 \<Longrightarrow> ip_int_from_prefix p = NOT (mask (32 - p))"
  unfolding ip_int_from_prefix_def
  by (rule bit_word_eqI) (auto simp: bit_simps)

lemma unat_mask32: "unat (mask k :: ipv4) = 2 ^ k - 1" if "k \<le> 32"
proof -
  have "(mask k :: ipv4) = of_nat (mask k)" by (simp add: of_nat_mask_eq)
  then have "unat (mask k :: ipv4) = take_bit 32 (mask k :: nat)"
    by (simp add: unsigned_of_nat)
  also have "\<dots> = mask k" using that by (simp add: min_def)
  also have "\<dots> = 2 ^ k - 1" by (simp add: mask_eq_exp_minus_1)
  finally show ?thesis .
qed

lemma unat_take_bit_mod: "unat (take_bit k w) = unat w mod 2 ^ k" for w :: ipv4
  by (subst unsigned_take_bit_eq) (simp add: take_bit_eq_mod)

lemma unat_drop_bit_div: "unat (drop_bit k w) = unat w div 2 ^ k" for w :: ipv4
  by (subst unat_drop_bit_eq) (simp add: drop_bit_eq_div)

lemma block_upper: "a * 2 ^ k \<le> n \<and> n \<le> a * 2 ^ k + (2 ^ k - 1) \<Longrightarrow> n < (a + 1) * 2 ^ k" for a n k :: nat
proof -
  assume h: "a * 2 ^ k \<le> n \<and> n \<le> a * 2 ^ k + (2 ^ k - 1)"
  have pos: "(0::nat) < 2 ^ k" by simp
  have "(a + 1) * 2 ^ k = a * 2 ^ k + 2 ^ k" by (simp add: algebra_simps)
  then show ?thesis using h pos by linarith
qed

lemma first_unat: "unat (w AND NOT (mask k)) = unat w div 2 ^ k * 2 ^ k" for w :: ipv4
proof -
  have z: "NOT w AND take_bit k w = 0"
    by (rule bit_word_eqI) (auto simp: bit_simps)
  have "w - take_bit k w = w AND NOT (take_bit k w)"
    using z by (rule disjunctive_diff_eq_and_not)
  also have "\<dots> = w AND NOT (mask k)"
    by (rule bit_word_eqI) (auto simp: bit_simps)
  finally have e: "w AND NOT (mask k) = w - take_bit k w" by simp
  have le: "take_bit k w \<le> w"
    unfolding word_le_nat_alt unat_take_bit_mod by simp
  have "unat (w - take_bit k w) = unat w - unat (take_bit k w)"
    using le by (rule unat_sub)
  also have "\<dots> = unat w - unat w mod 2 ^ k"
    unfolding unat_take_bit_mod by simp
  also have "\<dots> = unat w div 2 ^ k * 2 ^ k"
    by (simp add: minus_mod_eq_div_mult)
  finally show ?thesis by (simp add: e)
qed

lemma block_bound: "unat w div 2 ^ k * 2 ^ k + (2 ^ k - 1) < 2 ^ 32" if "k \<le> 32" for w :: ipv4
proof -
  have w: "unat w < 2 ^ 32" using unsigned_less [of w] by simp
  have pos: "(0::nat) < 2 ^ k" by simp
  have "unat w div 2 ^ k * 2 ^ k + (2 ^ k - 1) < (unat w div 2 ^ k + 1) * 2 ^ k"
    using pos by (simp add: algebra_simps)
  moreover have "unat w div 2 ^ k < 2 ^ (32 - k)"
  proof -
    have "(2::nat) ^ 32 = 2 ^ (32 - k) * 2 ^ k" using that by (simp flip: power_add)
    then show ?thesis using w by (simp add: less_mult_imp_div_less)
  qed
  then have "(unat w div 2 ^ k + 1) * 2 ^ k \<le> 2 ^ (32 - k) * 2 ^ k"
    by (intro mult_le_mono1) simp
  moreover have "(2::nat) ^ (32 - k) * 2 ^ k = 2 ^ 32" using that by (simp flip: power_add)
  ultimately show ?thesis by linarith
qed

lemma last_unat: "unat (w OR mask k) = unat w div 2 ^ k * 2 ^ k + (2 ^ k - 1)" if "k \<le> 32" for w :: ipv4
proof -
  let ?f = "w AND NOT (mask k)"
  have d: "?f AND mask k = 0"
    by (rule bit_word_eqI) (auto simp: bit_simps)
  have "?f + mask k = ?f OR mask k" using d by (rule disjunctive_add_eq_or)
  also have "\<dots> = w OR mask k"
    by (rule bit_word_eqI) (auto simp: bit_simps)
  finally have e: "w OR mask k = ?f + mask k" by simp
  have m: "unat (mask k :: ipv4) = 2 ^ k - 1"
    using that by (rule unat_mask32)
  have "unat ?f + unat (mask k :: ipv4) < 2 ^ LENGTH(32)"
    using block_bound [OF that, of w] by (simp add: first_unat m)
  then have "unat (?f + mask k) = unat ?f + unat (mask k :: ipv4)"
    by (rule unat_add_lem [THEN iffD1])
  then show ?thesis by (simp add: e first_unat m)
qed

lemma div_block: "(a * 2 ^ k \<le> n \<and> n \<le> a * 2 ^ k + (2 ^ k - 1)) \<longleftrightarrow> n div 2 ^ k = a" for a n k :: nat
proof
  assume h: "a * 2 ^ k \<le> n \<and> n \<le> a * 2 ^ k + (2 ^ k - 1)"
  have pos: "(0::nat) < 2 ^ k" by simp
  from h have "n < (a + 1) * 2 ^ k" by (rule block_upper)
  moreover from h have "a * 2 ^ k \<le> n" by simp
  ultimately show "n div 2 ^ k = a"
    by (metis Suc_eq_plus1 div_nat_eqI mult.commute)
next
  assume "n div 2 ^ k = a"
  then have a: "a = n div 2 ^ k" by simp
  have pos: "(0::nat) < 2 ^ k" by simp
  have l: "n div 2 ^ k * 2 ^ k \<le> n" by simp
  have e: "n div 2 ^ k * 2 ^ k + n mod 2 ^ k = n" by (rule div_mult_mod_eq)
  have "n mod 2 ^ k < 2 ^ k" using pos by (rule mod_less_divisor)
  then have "n mod 2 ^ k \<le> 2 ^ k - 1" by linarith
  then have "n \<le> n div 2 ^ k * 2 ^ k + (2 ^ k - 1)" using e by linarith
  with l show "a * 2 ^ k \<le> n \<and> n \<le> a * 2 ^ k + (2 ^ k - 1)"
    by (simp add: a)
qed

lemma block_interval:
  fixes w x :: ipv4
  assumes "k \<le> 32"
  shows "(w AND NOT (mask k) \<le> x \<and> x \<le> w OR mask k) \<longleftrightarrow> drop_bit k x = drop_bit k w"
proof -
  have "(w AND NOT (mask k) \<le> x \<and> x \<le> w OR mask k)
      \<longleftrightarrow> (unat w div 2 ^ k * 2 ^ k \<le> unat x \<and> unat x \<le> unat w div 2 ^ k * 2 ^ k + (2 ^ k - 1))"
    by (simp add: word_le_nat_alt first_unat last_unat [OF assms])
  also have "\<dots> \<longleftrightarrow> unat x div 2 ^ k = unat w div 2 ^ k" by (rule div_block)
  also have "\<dots> \<longleftrightarrow> unat (drop_bit k x) = unat (drop_bit k w)"
    unfolding unat_drop_bit_div by simp
  also have "\<dots> \<longleftrightarrow> drop_bit k x = drop_bit k w" by (simp add: word_unat_eq_iff)
  finally show ?thesis .
qed

lemma str_nat_ne: "str_nat n \<noteq> []"
  by (subst str_nat.simps) simp

lemma digit_val_char: "d < 10 \<Longrightarrow> digit_val (char_of (48 + d)) = d"
  by (simp add: digit_val_def)

lemma int_of_digits_snoc: "int_of_digits (s @ [c]) = 10 * int_of_digits s + digit_val c"
  by (simp add: int_of_digits_def)

lemma int_of_digits_str_nat: "int_of_digits (str_nat n) = n"
proof (induction n rule: str_nat.induct)
  case (1 n)
  show ?case
  proof (cases "n < 10")
    case True
    then show ?thesis
      by (subst str_nat.simps) (simp add: int_of_digits_def digit_val_char)
  next
    case False
    then have "int_of_digits (str_nat n) = 10 * int_of_digits (str_nat (n div 10)) + digit_val (char_of (48 + n mod 10))"
      by (subst str_nat.simps) (simp add: int_of_digits_snoc)
    also have "\<dots> = 10 * (n div 10) + n mod 10"
      using 1 [OF False] by (simp add: digit_val_char)
    finally show ?thesis by simp
  qed
qed

lemma str_nat_length: "n < 1000 \<Longrightarrow> length (str_nat n) \<le> 3"
proof -
  assume n: "n < 1000"
  have one: "length (str_nat m) = 1" if "m < 10" for m
    using that by (subst str_nat.simps) simp
  have two: "length (str_nat m) \<le> 2" if "m < 100" for m
  proof (cases "m < 10")
    case True then show ?thesis using one by simp
  next
    case False
    then have "m div 10 < 10" using that by simp
    then show ?thesis using False one [of "m div 10"] by (subst str_nat.simps) simp
  qed
  show ?thesis
  proof (cases "n < 10")
    case True then show ?thesis using one by simp
  next
    case False
    then have "n div 10 < 100" using n by simp
    then show ?thesis using False two [of "n div 10"] by (subst str_nat.simps) simp
  qed
qed

lemma str_nat_zero: "str_nat 0 = ''0''"
  by code_simp

lemma str_nat_hd: "0 < n \<Longrightarrow> hd (str_nat n) \<noteq> CHR ''0''"
proof (induction n rule: str_nat.induct)
  case (1 n)
  show ?case
  proof (cases "n < 10")
    case True
    have "char_of (48 + n) \<noteq> CHR ''0''" if "0 < n" "n < 10"
    proof
      assume "char_of (48 + n) = CHR ''0''"
      then have "of_char (char_of (48 + n) :: char) = (of_char (CHR ''0'') :: nat)" by simp
      then show False using that by simp
    qed
    then show ?thesis using True 1(2) by (subst str_nat.simps) simp
  next
    case False
    then have "0 < n div 10" by simp
    then have "hd (str_nat (n div 10)) \<noteq> CHR ''0''" using 1(1) [OF False] by simp
    then show ?thesis using False str_nat_ne [of "n div 10"] by (subst str_nat.simps) simp
  qed
qed

lemma parse_octet_str_nat: "n < 256 \<Longrightarrow> parse_octet (str_nat n) = Some n"
proof -
  assume n: "n < 256"
  have l: "length (str_nat n) \<le> 3" using n by (intro str_nat_length) simp
  have z: "str_nat n \<noteq> ''0'' \<Longrightarrow> hd (str_nat n) \<noteq> CHR ''0''"
    using str_nat_hd [of n] str_nat_zero by (cases "n = 0") auto
  show ?thesis
    using n l z by (auto simp: parse_octet_def str_nat_ne str_nat_digits int_of_digits_str_nat)
qed

lemma prefix_str_nat: "p \<le> 32 \<Longrightarrow> make_netmask (str_nat p) = Some p"
  by (simp add: make_netmask_def prefix_from_prefix_string_def str_nat_ne str_nat_digits
      int_of_digits_str_nat)

lemma str_nat_no_dot: "CHR ''.'' \<notin> set (str_nat n)"
  using str_nat_digits [of n] by (auto simp: list_all_iff is_digit_def)

lemma split_quad:
  assumes "CHR ''.'' \<notin> set a" "CHR ''.'' \<notin> set b" "CHR ''.'' \<notin> set c" "CHR ''.'' \<notin> set d"
  shows "split_on (CHR ''.'') (join ''.'' [a, b, c, d]) = [a, b, c, d]"
  using assms split_on_append [of "CHR ''.''"] split_on_notin [of "CHR ''.''"]
  by simp

lemma nat_bytes:
  fixes n :: nat
  assumes "n < 2 ^ 32"
  shows "((n div 2 ^ 24 mod 256 * 256 + n div 2 ^ 16 mod 256) * 256 + n div 2 ^ 8 mod 256) * 256
           + n mod 256 = n"
proof -
  define q1 where "q1 = n div 256"
  define q2 where "q2 = q1 div 256"
  define q3 where "q3 = q2 div 256"
  have d8: "n div 2 ^ 8 = q1" by (simp add: q1_def)
  have d16: "n div 2 ^ 16 = q2"
    unfolding q2_def q1_def div_mult2_eq [symmetric] by simp
  have d24: "n div 2 ^ 24 = q3"
    unfolding q3_def q2_def q1_def div_mult2_eq [symmetric] by simp
  have "q3 < 256" using assms unfolding d24 [symmetric] by (simp add: less_mult_imp_div_less)
  then have m3: "q3 mod 256 = q3" by simp
  have e1: "q1 * 256 + n mod 256 = n" unfolding q1_def by (rule div_mult_mod_eq)
  have e2: "q2 * 256 + q1 mod 256 = q1" unfolding q2_def by (rule div_mult_mod_eq)
  have e3: "q3 * 256 + q2 mod 256 = q2" unfolding q3_def by (rule div_mult_mod_eq)
  show ?thesis unfolding d8 d16 d24 m3 e3 e2 e1 ..
qed

lemma byte_unat: "unat (drop_bit k w AND 255) = unat w div 2 ^ k mod 256" for w :: ipv4
proof -
  have "drop_bit k w AND 255 = take_bit 8 (drop_bit k w)"
    by (simp add: take_bit_eq_mask mask_eq_exp_minus_1)
  then show ?thesis by (simp add: unat_take_bit_mod unat_drop_bit_div)
qed

lemma from_to_bytes: "from_bytes (to_bytes w) = w"
proof -
  let ?n = "unat w"
  have lt: "?n < 2 ^ 32" using unsigned_less [of w] by simp
  have "from_bytes (to_bytes w) =
      of_nat (((?n div 2 ^ 24 mod 256 * 256 + ?n div 2 ^ 16 mod 256) * 256 + ?n div 2 ^ 8 mod 256) * 256
           + ?n mod 256)"
    using byte_unat [of 24 w] byte_unat [of 16 w] byte_unat [of 8 w] byte_unat [of 0 w]
    by (simp add: from_bytes_def to_bytes_def)
  also have "\<dots> = of_nat ?n" by (simp only: nat_bytes [OF lt])
  finally show ?thesis by simp
qed

lemma to_bytes_lt: "b \<in> set (to_bytes w) \<Longrightarrow> b < 256"
  using byte_unat [of _ w] byte_unat [of 0 w] by (auto simp: to_bytes_def)

lemma IPv4Address_str4: "IPv4Address (str4 w) = Some w"
proof -
  obtain a b c d where tb: "to_bytes w = [a, b, c, d]" by (simp add: to_bytes_def)
  then have lt: "a < 256" "b < 256" "c < 256" "d < 256"
    using to_bytes_lt [of _ w] by auto
  have s: "str4 w = join ''.'' [str_nat a, str_nat b, str_nat c, str_nat d]"
    by (simp add: str4_def tb)
  have sp: "split_on (CHR ''.'') (str4 w) = [str_nat a, str_nat b, str_nat c, str_nat d]"
    unfolding s by (rule split_quad) (rule str_nat_no_dot)+
  have ne: "str4 w \<noteq> []" unfolding s using str_nat_ne [of a] by simp
  have ns: "CHR ''/'' \<notin> set (str4 w)"
    using str4_quad [of w] quad_char_not_slash by (auto simp: list_all_iff)
  have "ip_int_from_string (str4 w) = Some (from_bytes [a, b, c, d])"
    using ne lt by (simp add: ip_int_from_string_def sp parse_octet_str_nat)
  then show ?thesis using ns by (simp add: IPv4Address_def from_to_bytes flip: tb)
qed

lemma last_form2: "(w AND NOT (mask k)) OR mask k = w OR mask k" for w :: ipv4
  by (rule bit_word_eqI) (auto simp: bit_simps)

lemma cidr_examples:
  "parse_ip_range lib ''10.0.0.0/24'' = Inr (''10.0.0.0'', ''10.0.0.255'')"
  "parse_ip_range lib ''10.1.2.3/8'' = Inr (''10.0.0.0'', ''10.255.255.255'')"
  "parse_ip_range lib ''192.168.77.5/20'' = Inr (''192.168.64.0'', ''192.168.79.255'')"
  "parse_ip_range lib ''172.16.5.9/255.255.0.0'' = Inr (''172.16.0.0'', ''172.16.255.255'')"
  "parse_ip_range lib ''1.2.3.4/32'' = Inr (''1.2.3.4'', ''1.2.3.4'')"
  "parse_ip_range lib ''1.2.3.4/0'' = Inr (''0.0.0.0'', ''255.255.255.255'')"
  by code_simp+

text \<open>
  C7. For every valid CIDR token \<open>a/m\<close> (an IPv4 address \<open>a\<close>, and \<open>m\<close> a prefix
  length or a mask, of prefix length \<open>p\<close>), \<open>p\<close> is at most 32 and \<open>parse_ip_range\<close>
  returns, as dotted quads that read back as the same addresses, the first and the last
  address of the block of \<open>a\<close>: the address with its low \<open>32 - p\<close> bits cleared, and with
  them all set. These are the network and the broadcast address that the library
  computes with the netmask of \<open>p\<close>, which is the complement of the low \<open>32 - p\<close> bits.
  The first is not above the second and the address lies between them; the addresses
  between the two are exactly those that agree with \<open>a\<close> on the high \<open>p\<close> bits, and
  there are \<open>2 ^ (32 - p)\<close> of them. For every address and every prefix length up to 32,
  the token written in the canonical way parses to the block of that length. In
  particular \<^verbatim>\<open>10.0.0.0/24\<close> gives \<^verbatim>\<open>10.0.0.0\<close> and \<^verbatim>\<open>10.0.0.255\<close>, and a \<^verbatim>\<open>/8\<close>,
  a \<^verbatim>\<open>/20\<close>, a mask, a \<^verbatim>\<open>/32\<close> and a \<^verbatim>\<open>/0\<close> give their own blocks.
\<close>

theorem parse_ip_range_cidr:
  fixes w first_ip last_ip :: ipv4
  assumes "IPv4Address a = Some w" and "make_netmask m = Some p"
  defines "first_ip \<equiv> w AND NOT (mask (32 - p))"
    and "last_ip \<equiv> w OR mask (32 - p)"
  shows "p \<le> 32
       \<and> parse_ip_range lib (a @ ''/'' @ m) = Inr (str4 first_ip, str4 last_ip)
       \<and> IPv4Address (str4 first_ip) = Some first_ip \<and> IPv4Address (str4 last_ip) = Some last_ip
       \<and> ip_int_from_prefix p = NOT (mask (32 - p))
       \<and> first_ip = network_address (w AND ip_int_from_prefix p, p)
       \<and> last_ip = broadcast_address (w AND ip_int_from_prefix p, p)
       \<and> first_ip \<le> last_ip \<and> first_ip \<le> w \<and> w \<le> last_ip
       \<and> (\<forall>x. (first_ip \<le> x \<and> x \<le> last_ip) \<longleftrightarrow> drop_bit (32 - p) x = drop_bit (32 - p) w)
       \<and> unat last_ip = unat first_ip + (2 ^ (32 - p) - 1)
       \<and> (\<forall>v q. q \<le> 32 \<longrightarrow>
             parse_ip_range lib (str4 v @ ''/'' @ str_nat q)
               = Inr (str4 (v AND NOT (mask (32 - q))), str4 (v OR mask (32 - q))))
       \<and> parse_ip_range lib ''10.0.0.0/24'' = Inr (''10.0.0.0'', ''10.0.0.255'')
       \<and> parse_ip_range lib ''10.1.2.3/8'' = Inr (''10.0.0.0'', ''10.255.255.255'')
       \<and> parse_ip_range lib ''192.168.77.5/20'' = Inr (''192.168.64.0'', ''192.168.79.255'')
       \<and> parse_ip_range lib ''172.16.5.9/255.255.0.0'' = Inr (''172.16.0.0'', ''172.16.255.255'')
       \<and> parse_ip_range lib ''1.2.3.4/32'' = Inr (''1.2.3.4'', ''1.2.3.4'')
       \<and> parse_ip_range lib ''1.2.3.4/0'' = Inr (''0.0.0.0'', ''255.255.255.255'')"
proof -
  have gen: "parse_ip_range lib (a' @ ''/'' @ m') =
       Inr (str4 (v AND NOT (mask (32 - q))), str4 (v OR mask (32 - q))) \<and> q \<le> 32"
    if "IPv4Address a' = Some v" "make_netmask m' = Some q" for a' m' v q
  proof -
    have q: "q \<le> 32" using that(2) by (rule make_netmask_le)
    show ?thesis
      using parse_cidr [OF that, of lib] q
      by (simp add: ip_int_from_prefix_mask [OF q] last_form2)
  qed
  have p: "p \<le> 32" using assms(2) by (rule make_netmask_le)
  have nm: "ip_int_from_prefix p = NOT (mask (32 - p))" using p by (rule ip_int_from_prefix_mask)
  have k: "32 - p \<le> 32" by simp
  have parse: "parse_ip_range lib (a @ ''/'' @ m) = Inr (str4 first_ip, str4 last_ip)"
    using gen [OF assms(1,2)] by (simp add: first_ip_def last_ip_def)
  have na: "first_ip = network_address (w AND ip_int_from_prefix p, p)"
    by (simp add: network_address_def nm first_ip_def)
  have ba: "last_ip = broadcast_address (w AND ip_int_from_prefix p, p)"
    by (simp add: broadcast_address_def nm last_ip_def last_form2)
  have iv: "(first_ip \<le> x \<and> x \<le> last_ip) \<longleftrightarrow> drop_bit (32 - p) x = drop_bit (32 - p) w" for x
    unfolding first_ip_def last_ip_def using k by (rule block_interval)
  from iv [of w] have fw: "first_ip \<le> w" and wl: "w \<le> last_ip" by simp_all
  then have fl: "first_ip \<le> last_ip" by (rule order_trans)
  have sz: "unat last_ip = unat first_ip + (2 ^ (32 - p) - 1)"
    unfolding first_ip_def last_ip_def by (simp add: first_unat last_unat [OF k])
  have canon: "parse_ip_range lib (str4 v @ ''/'' @ str_nat q)
               = Inr (str4 (v AND NOT (mask (32 - q))), str4 (v OR mask (32 - q)))"
    if "q \<le> 32" for v q
    using gen [OF IPv4Address_str4 prefix_str_nat [OF that]] by (rule conjunct1)
  show ?thesis
    using p parse IPv4Address_str4 [of first_ip] IPv4Address_str4 [of last_ip] nm na ba fl fw wl iv sz
      canon cidr_examples [of lib]
    by (intro conjI allI impI)
qed

theorem parse_ip_range_cidr_witness:
  "IPv4Address ''192.168.77.5'' = Some 3232255237 \<and> make_netmask ''20'' = Some 20
   \<and> parse_ip_range no_ipv6 ''192.168.77.5/20'' = Inr (''192.168.64.0'', ''192.168.79.255'')
   \<and> IPv4Address ''192.168.64.0'' = Some 3232251904
   \<and> IPv4Address ''192.168.79.255'' = Some 3232255999"
proof -
  have a: "IPv4Address ''192.168.77.5'' = Some 3232255237" by code_simp
  have m: "make_netmask ''20'' = Some 20" by code_simp
  have f: "(3232255237 :: ipv4) AND NOT (mask (32 - 20)) = 3232251904" by code_simp
  have l: "(3232255237 :: ipv4) OR mask (32 - 20) = 3232255999" by code_simp
  have s: "str4 3232251904 = ''192.168.64.0''" "str4 3232255999 = ''192.168.79.255''"
    by code_simp+
  note t = parse_ip_range_cidr [OF a m, of no_ipv6, unfolded f l s]
  from t have p: "parse_ip_range no_ipv6 (''192.168.77.5'' @ ''/'' @ ''20'')
      = Inr (''192.168.64.0'', ''192.168.79.255'')"
    by (elim conjE)
  from t have r1: "IPv4Address ''192.168.64.0'' = Some 3232251904" by (elim conjE)
  from t have r2: "IPv4Address ''192.168.79.255'' = Some 3232255999" by (elim conjE)
  from p have "parse_ip_range no_ipv6 ''192.168.77.5/20'' = Inr (''192.168.64.0'', ''192.168.79.255'')"
    by simp
  with a m r1 r2 show ?thesis by (intro conjI)
qed

subsection \<open>The request of an add to the range backend\<close>

lemma sql_item_add_raw:
  assumes "parse_ip_range lib ip = Inr (s, e)"
  shows "sql_item lib env base headers ''add'' ex ip (lg, w) =
     (case send env (put_request base headers (strip s) (strip e)) w of
        (Inl err, w1) \<Rightarrow> (Inl err, (lg @ [Request (put_request base headers (strip s) (strip e))], w1))
      | (Inr resp, w1) \<Rightarrow> (Inr [RuleResult ip (status_code resp) (resp_text resp)],
                            (lg @ [Request (put_request base headers (strip s) (strip e))], w1)))"
  using assms by (rule sql_item_add)

lemma put_request_explicit:
  "put_request base headers s e =
     \<lparr>req_method = PUT,
      req_url = base @ ''/'' @ (''rule_'' @ map (\<lambda>c. if c = CHR ''.'' then CHR ''_'' else c) s @ ''_''
                 @ map (\<lambda>c. if c = CHR ''.'' then CHR ''_'' else c) e) @ ''?api-version=2023-08-01'',
      req_headers = headers,
      req_json = Some (JObj [(''properties'',
        JObj [(''startIpAddress'', JStr s), (''endIpAddress'', JStr e)])])\<rparr>"
  by (simp add: put_request_def rule_url_def rule_name_def replace_char_def API_SQL_VERSION_def)

lemma rule_name_explicit:
  "rule_name s e = ''rule_'' @ map (\<lambda>c. if c = CHR ''.'' then CHR ''_'' else c) s @ ''_''
                 @ map (\<lambda>c. if c = CHR ''.'' then CHR ''_'' else c) e"
  by (simp add: rule_name_def replace_char_def)

lemma rule_name_chars:
  "set (rule_name s e) \<subseteq> set ''rule_'' \<union> ((set s \<union> set e) - {CHR ''.''})"
  "(set s \<union> set e) - {CHR ''.''} \<subseteq> set (rule_name s e)"
  by (auto simp: rule_name_explicit)

lemma sql_loop_add_twice:
  assumes "parse_ip_range lib t1 = Inr (s, e)" and "parse_ip_range lib t2 = Inr (s, e)"
  shows "fst (snd (sql_loop lib env base headers ''add'' ex [t1, t2] (lg, w)))
           = lg @ [Request (put_request base headers (strip s) (strip e))]
       \<or> fst (snd (sql_loop lib env base headers ''add'' ex [t1, t2] (lg, w)))
           = lg @ [Request (put_request base headers (strip s) (strip e)),
                   Request (put_request base headers (strip s) (strip e))]"
  by (simp add: bindIO_def ret_def sql_item_add [OF assms(1)] sql_item_add [OF assms(2)]
      split: prod.splits sum.splits)

text \<open>
  C4, as the code has it. With action add, an input item sends exactly one request: the
  PUT to \<^verbatim>\<open>base/name?api-version=2023-08-01\<close> with the given headers and the body
  \<^verbatim>\<open>{properties: {startIpAddress: start, endIpAddress: end}}\<close>, where start and
  end are the parsed strings, trimmed, and the name is \<^verbatim>\<open>rule_\<close>, the start, \<^verbatim>\<open>_\<close> and
  the end, with each \<^verbatim>\<open>.\<close> replaced by \<^verbatim>\<open>_\<close> and every other character kept. The
  result of the item is the status and the text of the answer. Two tokens that parse to
  the same start and end send the same PUT, whatever the remote side answered before,
  and adding both sends that PUT once (when the first send raises) or twice, to the same
  name. The name holds no \<^verbatim>\<open>.\<close>; its characters are those of \<^verbatim>\<open>rule_\<close> and those of
  the start and the end other than \<^verbatim>\<open>.\<close>, all of which it keeps; when start and end
  consist of digits and dots it consists of letters, digits and underscores only.
\<close>

theorem add_rule_name_deterministic:
  fixes name base :: string and headers :: "(string \<times> string) list" and r :: http_request
  assumes "parse_ip_range lib t1 = Inr (s, e)" and "parse_ip_range lib t2 = Inr (s, e)"
  defines "name \<equiv> ''rule_'' @ map (\<lambda>c. if c = CHR ''.'' then CHR ''_'' else c) (strip s) @ ''_''
                 @ map (\<lambda>c. if c = CHR ''.'' then CHR ''_'' else c) (strip e)"
    and "r \<equiv> \<lparr>req_method = PUT,
              req_url = base @ ''/'' @ name @ ''?api-version=2023-08-01'',
              req_headers = headers,
              req_json = Some (JObj [(''properties'',
                JObj [(''startIpAddress'', JStr (strip s)), (''endIpAddress'', JStr (strip e))])])\<rparr>"
  shows "sql_item lib env base headers ''add'' ex t1 (lg, w) =
           (case send env r w of
              (Inl err, w1) \<Rightarrow> (Inl err, (lg @ [Request r], w1))
            | (Inr resp, w1) \<Rightarrow>
                (Inr [RuleResult t1 (status_code resp) (resp_text resp)], (lg @ [Request r], w1)))
       \<and> sql_item lib env base headers ''add'' ex t2 (lg', w') =
           (case send env r w' of
              (Inl err, w1) \<Rightarrow> (Inl err, (lg' @ [Request r], w1))
            | (Inr resp, w1) \<Rightarrow>
                (Inr [RuleResult t2 (status_code resp) (resp_text resp)], (lg' @ [Request r], w1)))
       \<and> (fst (snd (sql_loop lib env base headers ''add'' ex [t1, t2] (lg, w))) = lg @ [Request r]
          \<or> fst (snd (sql_loop lib env base headers ''add'' ex [t1, t2] (lg, w)))
               = lg @ [Request r, Request r])
       \<and> rule_name (strip s) (strip e) = name
       \<and> CHR ''.'' \<notin> set name
       \<and> set name \<subseteq> set ''rule_'' \<union> ((set (strip s) \<union> set (strip e)) - {CHR ''.''})
       \<and> (set (strip s) \<union> set (strip e)) - {CHR ''.''} \<subseteq> set name
       \<and> (list_all quad_char (strip s) \<and> list_all quad_char (strip e) \<longrightarrow> list_all ident_char name)
       \<and> rule_name ''10.0.0.5'' ''10.0.0.10'' = ''rule_10_0_0_5_10_0_0_10''"
proof -
  have n: "rule_name (strip s) (strip e) = name"
    unfolding name_def by (rule rule_name_explicit)
  have r: "put_request base headers (strip s) (strip e) = r"
    unfolding r_def name_def by (rule put_request_explicit)
  have ex: "rule_name ''10.0.0.5'' ''10.0.0.10'' = ''rule_10_0_0_5_10_0_0_10''" by code_simp
  show ?thesis
    using sql_item_add_raw [OF assms(1), of env base headers ex lg w]
      sql_item_add_raw [OF assms(2), of env base headers ex lg' w']
      sql_loop_add_twice [OF assms(1,2), of env base headers ex lg w]
      rule_name_no_dot [of "strip s" "strip e"] rule_name_chars [of "strip s" "strip e"]
      rule_name_ident [of "strip s" "strip e"] ex
    unfolding n r by (intro conjI impI) auto
qed

theorem add_rule_name_deterministic_witness:
  "parse_ip_range no_ipv6 ''10.0.0.0/24'' = Inr (''10.0.0.0'', ''10.0.0.255'')
   \<and> parse_ip_range no_ipv6 ''10.0.0.0 - 10.0.0.255'' = Inr (''10.0.0.0'', ''10.0.0.255'')
   \<and> sql_item no_ipv6 (env_fixed (ok_response JNull)) ''b'' [] ''add'' JNull ''10.0.0.0/24'' ([], ())
       = (Inr [RuleResult ''10.0.0.0/24'' 200 ''ok''],
          ([Request \<lparr>req_method = PUT,
              req_url = ''b/rule_10_0_0_0_10_0_0_255?api-version=2023-08-01'',
              req_headers = [],
              req_json = Some (JObj [(''properties'',
                JObj [(''startIpAddress'', JStr ''10.0.0.0''),
                      (''endIpAddress'', JStr ''10.0.0.255'')])])\<rparr>], ()))
   \<and> sql_item no_ipv6 (env_fixed (ok_response JNull)) ''b'' [] ''add'' JNull
         ''10.0.0.0 - 10.0.0.255'' ([], ())
       = (Inr [RuleResult ''10.0.0.0 - 10.0.0.255'' 200 ''ok''],
          ([Request \<lparr>req_method = PUT,
              req_url = ''b/rule_10_0_0_0_10_0_0_255?api-version=2023-08-01'',
              req_headers = [],
              req_json = Some (JObj [(''properties'',
                JObj [(''startIpAddress'', JStr ''10.0.0.0''),
                      (''endIpAddress'', JStr ''10.0.0.255'')])])\<rparr>], ()))"
proof -
  have h1: "parse_ip_range no_ipv6 ''10.0.0.0/24'' = Inr (''10.0.0.0'', ''10.0.0.255'')"
    by code_simp
  have h2: "parse_ip_range no_ipv6 ''10.0.0.0 - 10.0.0.255'' = Inr (''10.0.0.0'', ''10.0.0.255'')"
    by code_simp
  have s: "strip ''10.0.0.0'' = ''10.0.0.0''" "strip ''10.0.0.255'' = ''10.0.0.255''"
    by code_simp+
  note t = add_rule_name_deterministic [OF h1 h2, of "env_fixed (ok_response JNull)" "''b''" "[]"
      JNull "[]" "()" "[]" "()", unfolded s]
  from t have a: "sql_item no_ipv6 (env_fixed (ok_response JNull)) ''b'' [] ''add'' JNull
      ''10.0.0.0/24'' ([], ())
       = (Inr [RuleResult ''10.0.0.0/24'' 200 ''ok''],
          ([Request \<lparr>req_method = PUT,
              req_url = ''b/rule_10_0_0_0_10_0_0_255?api-version=2023-08-01'',
              req_headers = [],
              req_json = Some (JObj [(''properties'',
                JObj [(''startIpAddress'', JStr ''10.0.0.0''),
                      (''endIpAddress'', JStr ''10.0.0.255'')])])\<rparr>], ()))"
    by (simp add: send_fixed ok_response_sel)
  from t have b: "sql_item no_ipv6 (env_fixed (ok_response JNull)) ''b'' [] ''add'' JNull
         ''10.0.0.0 - 10.0.0.255'' ([], ())
       = (Inr [RuleResult ''10.0.0.0 - 10.0.0.255'' 200 ''ok''],
          ([Request \<lparr>req_method = PUT,
              req_url = ''b/rule_10_0_0_0_10_0_0_255?api-version=2023-08-01'',
              req_headers = [],
              req_json = Some (JObj [(''properties'',
                JObj [(''startIpAddress'', JStr ''10.0.0.0''),
                      (''endIpAddress'', JStr ''10.0.0.255'')])])\<rparr>], ()))"
    by (simp add: send_fixed ok_response_sel)
  from h1 h2 a b show ?thesis by (intro conjI)
qed

text \<open>
  C4 as stated fails: only \<^verbatim>\<open>.\<close> is replaced. The parser passes any text without a
  \<^verbatim>\<open>/\<close> or a \<^verbatim>\<open>-\<close> through, so the token \<^verbatim>\<open>::1\<close> gives the rule name
  \<^verbatim>\<open>rule_::1_::1\<close>, which keeps its colons, and the PUT goes to that name.
\<close>

theorem rule_name_keeps_other_characters:
  "parse_ip_range no_ipv6 ''::1'' = Inr (''::1'', ''::1'')
   \<and> rule_name ''::1'' ''::1'' = ''rule_::1_::1''
   \<and> \<not> ident_char (CHR '':'')
   \<and> \<not> list_all ident_char (rule_name ''::1'' ''::1'')
   \<and> sql_item no_ipv6 (env_fixed (ok_response JNull)) ''b'' [] ''add'' JNull ''::1'' ([], ())
       = (Inr [RuleResult ''::1'' 200 ''ok''],
          ([Request \<lparr>req_method = PUT,
              req_url = ''b/rule_::1_::1?api-version=2023-08-01'',
              req_headers = [],
              req_json = Some (JObj [(''properties'',
                JObj [(''startIpAddress'', JStr ''::1''), (''endIpAddress'', JStr ''::1'')])])\<rparr>], ()))"
proof -
  have p: "parse_ip_range no_ipv6 ''::1'' = Inr (''::1'', ''::1'')" by code_simp
  have s: "strip ''::1'' = ''::1''" by code_simp
  have n: "rule_name ''::1'' ''::1'' = ''rule_::1_::1''" by code_simp
  have c: "\<not> ident_char (CHR '':'')" by code_simp
  have l: "\<not> list_all ident_char (rule_name ''::1'' ''::1'')"
    unfolding n using c by simp
  have i: "sql_item no_ipv6 (env_fixed (ok_response JNull)) ''b'' [] ''add'' JNull ''::1'' ([], ())
       = (Inr [RuleResult ''::1'' 200 ''ok''],
          ([Request \<lparr>req_method = PUT,
              req_url = ''b/rule_::1_::1?api-version=2023-08-01'',
              req_headers = [],
              req_json = Some (JObj [(''properties'',
                JObj [(''startIpAddress'', JStr ''::1''), (''endIpAddress'', JStr ''::1'')])])\<rparr>], ()))"
    by (simp add: sql_item_add [OF p] s send_fixed ok_response_sel put_request_explicit)
  from p n c l i show ?thesis by (intro conjI)
qed

subsection \<open>The request of an update of the list backend\<close>

lemma dict_set_others:
  "filter (\<lambda>kv. fst kv \<noteq> k) (dict_set k v kvs) = filter (\<lambda>kv. fst kv \<noteq> k) kvs"
  by (induction kvs) auto

lemma dict_set_has: "map_of (dict_set k v kvs) k = Some v"
  by (simp add: map_of_dict_set)

lemma storage_update_frame2:
  assumes "storage_update lib act S cur = Inr (Some b)"
  shows "\<exists>acls0 acls' rules'. fetched_acls cur = Inr acls0
           \<and> b = JObj [(''properties'', JObj [(''networkAcls'', JObj acls')])]
           \<and> (\<forall>k. k \<noteq> ''ipRules'' \<longrightarrow> map_of acls' k = map_of acls0 k)
           \<and> filter (\<lambda>kv. fst kv \<noteq> ''ipRules'') acls' = filter (\<lambda>kv. fst kv \<noteq> ''ipRules'') acls0
           \<and> map fst acls' = (if ''ipRules'' \<in> fst ` set acls0 then map fst acls0
                               else map fst acls0 @ [''ipRules''])
           \<and> map_of acls' ''ipRules'' = Some rules'"
proof -
  from assms obtain acls where a: "acls_of cur = Inr acls"
    and r: "bindE (existing_of acls) (\<lambda>existing.
     bindE (expand_all lib S) (\<lambda>expanded_ips.
       if act = ''add'' then
         bindE (py_getitem (JObj acls) ''ipRules'') (\<lambda>rules.
         bindE (add_rules existing rules expanded_ips) (\<lambda>rules'.
           Inr (Some (patch_body (dict_set ''ipRules'' rules' acls)))))
       else if act = ''remove'' then
         bindE (py_getitem (JObj acls) ''ipRules'') (\<lambda>rules.
         bindE (remove_rules rules expanded_ips) (\<lambda>rules'.
           Inr (Some (patch_body (dict_set ''ipRules'' rules' acls)))))
       else Inr None)) = Inr (Some b)"
    unfolding storage_update_def by (auto dest!: bindE_Inr)
  from a obtain acls0 where f: "fetched_acls cur = Inr acls0"
    and ac: "acls = (if map_of acls0 ''ipRules'' = None then dict_set ''ipRules'' (JArr []) acls0 else acls0)"
    unfolding acls_of_def by (auto dest!: bindE_Inr)
  from r obtain rules' where b: "b = patch_body (dict_set ''ipRules'' rules' acls)"
    by (auto dest!: bindE_Inr split: if_splits)
  let ?a = "dict_set ''ipRules'' rules' acls"
  have 1: "map_of ?a k = map_of acls0 k" if "k \<noteq> ''ipRules''" for k
    using that by (simp add: ac map_of_dict_set)
  have 2: "filter (\<lambda>kv. fst kv \<noteq> ''ipRules'') ?a = filter (\<lambda>kv. fst kv \<noteq> ''ipRules'') acls0"
    by (simp add: ac dict_set_others)
  have in0: "''ipRules'' \<in> fst ` set acls0 \<longleftrightarrow> map_of acls0 ''ipRules'' \<noteq> None"
    by (simp add: map_of_eq_None_iff)
  have 3: "map fst ?a = (if ''ipRules'' \<in> fst ` set acls0 then map fst acls0
                               else map fst acls0 @ [''ipRules''])"
  proof (cases "map_of acls0 ''ipRules'' = None")
    case True
    have e: "acls = dict_set ''ipRules'' (JArr []) acls0" unfolding ac using True by (rule if_P)
    have n: "''ipRules'' \<notin> fst ` set acls0" using True in0 by simp
    show ?thesis unfolding e using n by (simp add: dict_set_twice keys_dict_set)
  next
    case False
    then have i: "''ipRules'' \<in> fst ` set acls0" using in0 by simp
    have e: "acls = acls0" unfolding ac using False by (rule if_not_P)
    show ?thesis unfolding e using i by (simp add: keys_dict_set)
  qed
  have 4: "map_of ?a ''ipRules'' = Some rules'" by (rule dict_set_has)
  show ?thesis
    using f b 1 2 3 4 unfolding patch_body_def by blast
qed

lemma fetched_acls_default:
  "cur = JObj c \<Longrightarrow> map_of c ''properties'' = None \<Longrightarrow> fetched_acls cur = Inr acls0
     \<Longrightarrow> acls0 = [(''ipRules'', JArr []), (''defaultAction'', JStr ''Deny'')]"
  "cur = JObj c \<Longrightarrow> map_of c ''properties'' = Some (JObj p) \<Longrightarrow> map_of p ''networkAcls'' = None
     \<Longrightarrow> fetched_acls cur = Inr acls0
     \<Longrightarrow> acls0 = [(''ipRules'', JArr []), (''defaultAction'', JStr ''Deny'')]"
  by (auto simp: fetched_acls_def py_get_def default_acls_def)

text \<open>
  C10. Whatever was fetched and whichever the action, a PATCH that the list backend
  sends goes to the URL and with the headers of the GET that came before it, and its body
  is \<^verbatim>\<open>{properties: {networkAcls: acls'}}\<close>, where \<open>acls'\<close> is the networkAcls
  structure of the answer to that GET with the entry ipRules replaced: every key other
  than ipRules has the value that was fetched, the entries other than ipRules are the
  fetched ones in the fetched order, the keys are the fetched keys in their order (with
  ipRules appended when the fetched structure had none), and ipRules is present. The
  fetched structure is the networkAcls of the properties of the answer when there is one,
  and the default (no rule, defaultAction Deny) when the answer has no properties or its
  properties have no networkAcls.
\<close>

theorem patch_keeps_other_fields:
  assumes run: "manage_storage_firewall lib env sub token rg account act S (lg, w) = (res, (lg', w'))"
    and r: "Request r \<in> set (drop (length lg) lg')" and m: "req_method r = PATCH"
  shows "\<exists>resp w1 cur acls0 acls' rules'.
           send env \<lparr>req_method = GET, req_url = storage_url sub rg account,
                     req_headers = auth_headers token, req_json = None\<rparr> w = (Inr resp, w1)
         \<and> resp_json resp = Some cur \<and> fetched_acls cur = Inr acls0
         \<and> req_json r = Some (JObj [(''properties'', JObj [(''networkAcls'', JObj acls')])])
         \<and> req_url r = storage_url sub rg account \<and> req_headers r = auth_headers token
         \<and> (\<forall>k. k \<noteq> ''ipRules'' \<longrightarrow> map_of acls' k = map_of acls0 k)
         \<and> filter (\<lambda>kv. fst kv \<noteq> ''ipRules'') acls' = filter (\<lambda>kv. fst kv \<noteq> ''ipRules'') acls0
         \<and> map fst acls' = (if ''ipRules'' \<in> fst ` set acls0 then map fst acls0
                             else map fst acls0 @ [''ipRules''])
         \<and> map_of acls' ''ipRules'' = Some rules'
         \<and> (\<forall>c p n. cur = JObj c \<and> map_of c ''properties'' = Some (JObj p)
                \<and> map_of p ''networkAcls'' = Some n \<longrightarrow> n = JObj acls0)
         \<and> (\<forall>c p. cur = JObj c \<and> map_of c ''properties'' = Some (JObj p)
                \<and> map_of p ''networkAcls'' = None
              \<longrightarrow> acls0 = [(''ipRules'', JArr []), (''defaultAction'', JStr ''Deny'')])
         \<and> (\<forall>c. cur = JObj c \<and> map_of c ''properties'' = None
              \<longrightarrow> acls0 = [(''ipRules'', JArr []), (''defaultAction'', JStr ''Deny'')])"
proof -
  let ?g = "storage_get sub token rg account"
  have g: "?g = \<lparr>req_method = GET, req_url = storage_url sub rg account,
                     req_headers = auth_headers token, req_json = None\<rparr>"
    by (simp add: storage_get_def)
  obtain r1 w1 where s1: "send env ?g w = (r1, w1)" by (cases "send env ?g w")
  have gm: "req_method ?g \<noteq> PATCH" by (simp add: storage_get_def)
  have no: False if "lg' = lg @ [Request ?g]"
    using that r m gm by auto
  obtain resp where resp: "r1 = Inr resp"
    using run s1 no by (cases r1) (auto simp: manage_storage_run)
  obtain body where u: "bindE (response_json resp) (storage_update lib act S) = Inr (Some body)"
    using run s1 resp no
    by (cases "bindE (response_json resp) (storage_update lib act S)")
       (auto simp: manage_storage_run split: option.splits)
  from u obtain cur where cur: "resp_json resp = Some cur"
    and su: "storage_update lib act S cur = Inr (Some body)"
    by (auto simp: response_json_def dest!: bindE_Inr split: option.splits)
  from storage_update_frame2 [OF su] obtain acls0 acls' rules' where
    f: "fetched_acls cur = Inr acls0"
    and b: "body = JObj [(''properties'', JObj [(''networkAcls'', JObj acls')])]"
    and fr: "\<forall>k. k \<noteq> ''ipRules'' \<longrightarrow> map_of acls' k = map_of acls0 k"
    and fl: "filter (\<lambda>kv. fst kv \<noteq> ''ipRules'') acls' = filter (\<lambda>kv. fst kv \<noteq> ''ipRules'') acls0"
    and ks: "map fst acls' = (if ''ipRules'' \<in> fst ` set acls0 then map fst acls0
                             else map fst acls0 @ [''ipRules''])"
    and ir: "map_of acls' ''ipRules'' = Some rules'"
    by blast
  have "lg' = lg @ [Request ?g, Request (storage_patch sub token rg account body)]"
    using run s1 resp u by (auto simp: manage_storage_run split: prod.splits sum.splits)
  then have re: "r = storage_patch sub token rg account body"
    using r m gm by auto
  have rj: "req_json r = Some (JObj [(''properties'', JObj [(''networkAcls'', JObj acls')])])"
    and ru: "req_url r = storage_url sub rg account" and rh: "req_headers r = auth_headers token"
    unfolding re b by (simp_all add: storage_patch_def)
  have d1: "\<forall>c p n. cur = JObj c \<and> map_of c ''properties'' = Some (JObj p)
                \<and> map_of p ''networkAcls'' = Some n \<longrightarrow> n = JObj acls0"
    using fetched_acls_present [OF _ _ _ f] by blast
  have d2: "\<forall>c p. cur = JObj c \<and> map_of c ''properties'' = Some (JObj p)
                \<and> map_of p ''networkAcls'' = None
              \<longrightarrow> acls0 = [(''ipRules'', JArr []), (''defaultAction'', JStr ''Deny'')]"
    using fetched_acls_default(2) [OF _ _ _ f] by blast
  have d3: "\<forall>c. cur = JObj c \<and> map_of c ''properties'' = None
              \<longrightarrow> acls0 = [(''ipRules'', JArr []), (''defaultAction'', JStr ''Deny'')]"
    using fetched_acls_default(1) [OF _ _ f] by blast
  have s: "send env \<lparr>req_method = GET, req_url = storage_url sub rg account,
                     req_headers = auth_headers token, req_json = None\<rparr> w = (Inr resp, w1)"
    using s1 resp unfolding g by simp
  show ?thesis
    using s cur f rj ru rh fr fl ks ir d1 d2 d3 by (intro exI conjI)
qed

theorem patch_keeps_other_fields_witness:
  "manage_storage_firewall no_ipv6
       (env_fixed \<lparr>status_code = 200, resp_text = ''ok'', resp_json = Some
          (patch_body [(''bypass'', JStr ''AzureServices''), (''defaultAction'', JStr ''Allow''),
                       (''ipRules'', JArr [allow_entry ''10.0.0.9''])])\<rparr>)
       ''sub'' ''t'' ''rg'' ''acct'' ''add'' [''10.0.0.1''] ([], ())
     = (Inr [StatusResult 200 ''ok''],
        ([Request (storage_get ''sub'' ''t'' ''rg'' ''acct''),
          Request (storage_patch ''sub'' ''t'' ''rg'' ''acct'' (patch_body
            [(''bypass'', JStr ''AzureServices''), (''defaultAction'', JStr ''Allow''),
             (''ipRules'', JArr [allow_entry ''10.0.0.9'', allow_entry ''10.0.0.1''])]))], ()))
   \<and> (\<exists>acls'.
         req_json (storage_patch ''sub'' ''t'' ''rg'' ''acct'' (patch_body
            [(''bypass'', JStr ''AzureServices''), (''defaultAction'', JStr ''Allow''),
             (''ipRules'', JArr [allow_entry ''10.0.0.9'', allow_entry ''10.0.0.1''])]))
           = Some (JObj [(''properties'', JObj [(''networkAcls'', JObj acls')])])
       \<and> map_of acls' ''defaultAction'' = Some (JStr ''Allow'')
       \<and> map_of acls' ''bypass'' = Some (JStr ''AzureServices'')
       \<and> map fst acls' = [''bypass'', ''defaultAction'', ''ipRules''])"
proof -
  define cur0 where "cur0 = patch_body [(''bypass'', JStr ''AzureServices''),
             (''defaultAction'', JStr ''Allow''), (''ipRules'', JArr [allow_entry ''10.0.0.9''])]"
  define body0 where "body0 = patch_body
            [(''bypass'', JStr ''AzureServices''), (''defaultAction'', JStr ''Allow''),
             (''ipRules'', JArr [allow_entry ''10.0.0.9'', allow_entry ''10.0.0.1''])]"
  define resp0 where "resp0 = \<lparr>status_code = 200, resp_text = ''ok'', resp_json = Some cur0\<rparr>"
  define p0 where "p0 = storage_patch ''sub'' ''t'' ''rg'' ''acct'' body0"
  define g0 where "g0 = storage_get ''sub'' ''t'' ''rg'' ''acct''"
  have su: "storage_update no_ipv6 ''add'' [''10.0.0.1''] cur0 = Inr (Some body0)"
    unfolding cur0_def body0_def by code_simp
  have fa: "fetched_acls cur0 = Inr [(''bypass'', JStr ''AzureServices''),
             (''defaultAction'', JStr ''Allow''), (''ipRules'', JArr [allow_entry ''10.0.0.9''])]"
    unfolding cur0_def by (rule fetched_acls_patch_body)
  have s: "send (env_fixed resp0) q () = (Inr resp0, ())" for q
    by (simp add: env_fixed_def)
  have j: "response_json resp0 = Inr cur0" by (simp add: response_json_def resp0_def)
  have st: "status_code resp0 = 200" "resp_text resp0 = ''ok''" by (simp_all add: resp0_def)
  have run: "manage_storage_firewall no_ipv6 (env_fixed resp0)
       ''sub'' ''t'' ''rg'' ''acct'' ''add'' [''10.0.0.1''] ([], ())
     = (Inr [StatusResult 200 ''ok''], ([Request g0, Request p0], ()))"
    unfolding manage_storage_run g0_def [symmetric] s
    by (simp add: j su p0_def [symmetric] s st)
  have r: "Request p0 \<in> set (drop (length ([] :: call list)) [Request g0, Request p0])" by simp
  have m: "req_method p0 = PATCH" by (simp add: storage_patch_def p0_def)
  from patch_keeps_other_fields [OF run r m] obtain resp w1 cur acls0 acls' where
    s': "send (env_fixed resp0) \<lparr>req_method = GET, req_url = storage_url ''sub'' ''rg'' ''acct'',
                     req_headers = auth_headers ''t'', req_json = None\<rparr> () = (Inr resp, w1)"
    and c: "resp_json resp = Some cur" and f: "fetched_acls cur = Inr acls0"
    and e: "req_json p0 = Some (JObj [(''properties'', JObj [(''networkAcls'', JObj acls')])])"
    and k: "\<forall>k. k \<noteq> ''ipRules'' \<longrightarrow> map_of acls' k = map_of acls0 k"
    and ks: "map fst acls' = (if ''ipRules'' \<in> fst ` set acls0 then map fst acls0
                             else map fst acls0 @ [''ipRules''])"
    by (elim exE conjE)
  from s' have "resp = resp0" unfolding s by simp
  with c have "cur = cur0" by (simp add: resp0_def)
  with f fa have a0: "acls0 = [(''bypass'', JStr ''AzureServices''),
             (''defaultAction'', JStr ''Allow''), (''ipRules'', JArr [allow_entry ''10.0.0.9''])]"
    by simp
  have d: "map_of acls' ''defaultAction'' = Some (JStr ''Allow'')"
    using k [rule_format, of "''defaultAction''"] by (simp add: a0)
  have b: "map_of acls' ''bypass'' = Some (JStr ''AzureServices'')"
    using k [rule_format, of "''bypass''"] by (simp add: a0)
  have o: "map fst acls' = [''bypass'', ''defaultAction'', ''ipRules'']"
    using ks by (simp add: a0)
  have "\<exists>acls'. req_json p0 = Some (JObj [(''properties'', JObj [(''networkAcls'', JObj acls')])])
       \<and> map_of acls' ''defaultAction'' = Some (JStr ''Allow'')
       \<and> map_of acls' ''bypass'' = Some (JStr ''AzureServices'')
       \<and> map fst acls' = [''bypass'', ''defaultAction'', ''ipRules'']"
    using e d b o by (intro exI conjI)
  with run show ?thesis
    unfolding cur0_def body0_def resp0_def p0_def g0_def by (rule conjI)
qed

end
